theory Spec2Isabelle
  imports Complex_Main "HOL-Library.Word" "HOL-Library.AList"
begin

section \<open>Bytes, text and the Python library functions the relay uses\<close>

text \<open>
  A Python \<open>bytes\<close> value is a list of 8-bit words. A Python \<open>str\<close> is a list of
  Unicode code points. \<open>bytes.decode()\<close> and \<open>str.encode()\<close> are the strict UTF-8
  codec: decoding raises on an ill-formed sequence (\<open>None\<close> here), encoding raises on a
  surrogate code point.
\<close>

type_synonym byte = "8 word"
type_synonym bytes = "byte list"
type_synonym str = "nat list"

definition ascii :: "string \<Rightarrow> str" where
  "ascii cs = map of_char cs"

definition cont :: "nat \<Rightarrow> bool" where
  "cont b = (128 \<le> b \<and> b < 192)"

fun utf8_decode_nat :: "nat list \<Rightarrow> str option" where
  "utf8_decode_nat [] = Some []"
| "utf8_decode_nat (b0 # bs) =
     (if b0 < 128 then map_option ((#) b0) (utf8_decode_nat bs)
      else if 194 \<le> b0 \<and> b0 < 224 then
        (case bs of
           b1 # r \<Rightarrow>
             if cont b1
             then map_option ((#) ((b0 - 192) * 64 + (b1 - 128))) (utf8_decode_nat r)
             else None
         | _ \<Rightarrow> None)
      else if 224 \<le> b0 \<and> b0 < 240 then
        (case bs of
           b1 # b2 # r \<Rightarrow>
             if cont b1 \<and> cont b2 \<and> (if b0 = 224 then 160 \<le> b1 else True)
                \<and> (if b0 = 237 then b1 < 160 else True)
             then map_option ((#) ((b0 - 224) * 4096 + (b1 - 128) * 64 + (b2 - 128)))
                    (utf8_decode_nat r)
             else None
         | _ \<Rightarrow> None)
      else if 240 \<le> b0 \<and> b0 < 245 then
        (case bs of
           b1 # b2 # b3 # r \<Rightarrow>
             if cont b1 \<and> cont b2 \<and> cont b3 \<and> (if b0 = 240 then 144 \<le> b1 else True)
                \<and> (if b0 = 244 then b1 < 144 else True)
             then map_option
                    ((#) ((b0 - 240) * 262144 + (b1 - 128) * 4096 + (b2 - 128) * 64 + (b3 - 128)))
                    (utf8_decode_nat r)
             else None
         | _ \<Rightarrow> None)
      else None)"

definition utf8_decode :: "bytes \<Rightarrow> str option" where
  "utf8_decode data = utf8_decode_nat (map unat data)"

definition utf8_encode1 :: "nat \<Rightarrow> nat list option" where
  "utf8_encode1 c =
     (if c < 128 then Some [c]
      else if c < 2048 then Some [192 + c div 64, 128 + c mod 64]
      else if 55296 \<le> c \<and> c < 57344 then None
      else if c < 65536 then Some [224 + c div 4096, 128 + c div 64 mod 64, 128 + c mod 64]
      else if c < 1114112 then
        Some [240 + c div 262144, 128 + c div 4096 mod 64, 128 + c div 64 mod 64, 128 + c mod 64]
      else None)"

fun utf8_encode_nat :: "str \<Rightarrow> nat list option" where
  "utf8_encode_nat [] = Some []"
| "utf8_encode_nat (c # cs) =
     (case utf8_encode1 c of
        None \<Rightarrow> None
      | Some b \<Rightarrow> map_option ((@) b) (utf8_encode_nat cs))"

definition utf8_encode :: "str \<Rightarrow> bytes option" where
  "utf8_encode s = map_option (map of_nat) (utf8_encode_nat s)"

text \<open>\<open>str.isspace\<close> on one code point, and \<open>str.strip()\<close>.\<close>

definition isspace :: "nat \<Rightarrow> bool" where
  "isspace c =
     (9 \<le> c \<and> c \<le> 13 \<or> 28 \<le> c \<and> c \<le> 32 \<or> c = 133 \<or> c = 160 \<or> c = 5760
      \<or> 8192 \<le> c \<and> c \<le> 8202 \<or> c = 8232 \<or> c = 8233 \<or> c = 8239 \<or> c = 8287
      \<or> c = 12288)"

definition strip :: "str \<Rightarrow> str" where
  "strip s = rev (dropWhile isspace (rev (dropWhile isspace s)))"

text \<open>\<open>str(n)\<close> for an integer, and \<open>int(x)\<close> for a float (truncation towards zero).
  Clock readings (\<open>time.time()\<close>) are exact reals here; the rounding of floating point
  is not modelled.\<close>

fun digits :: "nat \<Rightarrow> str" where
  "digits n = (if n < 10 then [48 + n] else digits (n div 10) @ [48 + n mod 10])"

declare digits.simps [simp del]

definition str_int :: "int \<Rightarrow> str" where
  "str_int i = (if i < 0 then 45 # digits (nat (- i)) else digits (nat i))"

definition py_int :: "real \<Rightarrow> int" where
  "py_int x = (if 0 \<le> x then \<lfloor>x\<rfloor> else \<lceil>x\<rceil>)"

text \<open>\<open>json.dumps\<close> with its defaults (\<open>ensure_ascii\<close>, separators \<open>", "\<close> and
  \<open>": "\<close>): strings, booleans, the status dictionary and a list of them.\<close>

definition hex_digit :: "nat \<Rightarrow> nat" where
  "hex_digit d = (if d < 10 then 48 + d else 87 + d)"

definition u_escape :: "nat \<Rightarrow> str" where
  "u_escape c =
     [92, 117, hex_digit (c div 4096 mod 16), hex_digit (c div 256 mod 16),
      hex_digit (c div 16 mod 16), hex_digit (c mod 16)]"

definition json_escape_char :: "nat \<Rightarrow> str" where
  "json_escape_char c =
     (if c = 92 then [92, 92]
      else if c = 34 then [92, 34]
      else if c = 8 then [92, 98]
      else if c = 12 then [92, 102]
      else if c = 10 then [92, 110]
      else if c = 13 then [92, 114]
      else if c = 9 then [92, 116]
      else if 32 \<le> c \<and> c \<le> 126 then [c]
      else if c < 65536 then u_escape c
      else u_escape (55296 + (c - 65536) div 1024) @ u_escape (56320 + (c - 65536) mod 1024))"

definition json_str :: "str \<Rightarrow> str" where
  "json_str s = [34] @ concat (map json_escape_char s) @ [34]"

definition json_bool :: "bool \<Rightarrow> str" where
  "json_bool b = (if b then ascii ''true'' else ascii ''false'')"

fun join :: "str \<Rightarrow> str list \<Rightarrow> str" where
  "join sep [] = []"
| "join sep [x] = x"
| "join sep (x # y # ys) = x @ sep @ join sep (y # ys)"

section \<open>Wire formats\<close>

text \<open>\<open>struct.pack('I', n)\<close>, \<open>struct.pack('H', n)\<close> and their \<open>unpack\<close>: native byte
  order, so the order is a parameter of the host. \<open>pack\<close> raises \<open>struct.error\<close> when the
  number does not fit; \<open>unpack\<close> raises when the buffer has the wrong size.\<close>

datatype byteorder = Little | Big

definition native :: "byteorder \<Rightarrow> bytes \<Rightarrow> bytes" where
  "native bo le = (case bo of Little \<Rightarrow> le | Big \<Rightarrow> rev le)"

definition pack_I :: "byteorder \<Rightarrow> nat \<Rightarrow> bytes option" where
  "pack_I bo n =
     (if n < 4294967296
      then Some (native bo [of_nat n, of_nat (n div 256), of_nat (n div 65536),
                            of_nat (n div 16777216)])
      else None)"

definition unpack_I :: "byteorder \<Rightarrow> bytes \<Rightarrow> nat option" where
  "unpack_I bo buf =
     (case native bo buf of
        [b0, b1, b2, b3] \<Rightarrow> Some (unat b0 + 256 * unat b1 + 65536 * unat b2 + 16777216 * unat b3)
      | _ \<Rightarrow> None)"

definition pack_H :: "byteorder \<Rightarrow> nat \<Rightarrow> bytes option" where
  "pack_H bo n =
     (if n < 65536 then Some (native bo [of_nat n, of_nat (n div 256)]) else None)"

definition unpack_H :: "byteorder \<Rightarrow> bytes \<Rightarrow> nat option" where
  "unpack_H bo buf =
     (case native bo buf of
        [b0, b1] \<Rightarrow> Some (unat b0 + 256 * unat b1)
      | _ \<Rightarrow> None)"

text \<open>The reliable channel. The bytes still to arrive on a connection before it ends or
  the read times out are a list; \<open>readexactly n\<close> returns the first \<open>n\<close> of them and the
  rest, or fails (\<open>IncompleteReadError\<close> or \<open>TimeoutError\<close>) when fewer arrive.\<close>

definition readexactly :: "nat \<Rightarrow> bytes \<Rightarrow> (bytes \<times> bytes) option" where
  "readexactly n stream =
     (if n \<le> length stream then Some (take n stream, drop n stream) else None)"

text \<open>Lines 123 to 127 of \<open>handle_tcp_client\<close>: the length prefix, then the message.\<close>

definition read_frame :: "byteorder \<Rightarrow> bytes \<Rightarrow> (bytes \<times> bytes) option" where
  "read_frame bo stream =
     (case readexactly 4 stream of
        None \<Rightarrow> None
      | Some (length_data, rest) \<Rightarrow>
          (case unpack_I bo length_data of
             None \<Rightarrow> None
           | Some msg_length \<Rightarrow> readexactly msg_length rest))"

text \<open>Lines 342 to 344 of \<open>send_tcp_message\<close>: what is handed to \<open>writer.write\<close>.\<close>

definition frame :: "byteorder \<Rightarrow> bytes \<Rightarrow> bytes option" where
  "frame bo msg_bytes = map_option (\<lambda>length. length @ msg_bytes) (pack_I bo (length msg_bytes))"


section \<open>The server (\<open>server_core.py\<close>)\<close>

text \<open>An address is a pair \<open>(host, port)\<close>. A stream writer or reader is named by the
  number of its connection.\<close>

type_synonym address = "str \<times> nat"

record client =
  client_id :: str
  username :: str
  tcp_writer :: nat
  tcp_reader :: nat
  udp_addr :: address
  video_active :: bool
  audio_active :: bool
  screen_sharing :: bool
  last_seen :: real

text \<open>The mutable fields of \<open>ScalableCommServer\<close>. \<open>clients\<close> is a Python dictionary,
  iterated in insertion order: an association list, updated in place and appended to
  with \<open>AList.update\<close>. \<open>rooms_main\<close> is \<open>rooms['main']\<close>, the only room.\<close>

record server =
  udp_port :: nat
  clients :: "(str \<times> client) list"
  username_to_id :: "str \<rightharpoonup> str"
  rooms_main :: "str set"
  total_messages :: nat
  total_bytes :: nat

definition init_server :: "nat \<Rightarrow> server" where
  "init_server port =
     \<lparr>udp_port = port, clients = [], username_to_id = Map.empty, rooms_main = {},
      total_messages = 0, total_bytes = 0\<rparr>"

text \<open>What the server does to the network, in order: the calls of \<open>writer.write\<close>
  (with \<open>drain\<close>), of \<open>sendto\<close> and of \<open>writer.close\<close>. The flag of a write or a send
  tells whether the call returned normally; when it is \<open>False\<close> the call raised, and the
  handler around it swallowed the exception. The host and the network are parameters: the
  byte order of \<open>struct\<close>, the writers whose \<open>write\<close>/\<open>drain\<close> raises, and the datagrams
  whose \<open>sendto\<close> raises. Each entry point below runs to its end before the next one
  starts: the interleaving of handlers at an \<open>await\<close>, and of the UDP thread with the
  event loop, is not modelled.\<close>

datatype effect = TcpWrite nat bytes bool | UdpSend bytes address bool | TcpClose nat

record env =
  byte_order :: byteorder
  write_fails :: "nat \<Rightarrow> bool"
  sendto_fails :: "bytes \<Rightarrow> address \<Rightarrow> bool"

definition startswith :: "str \<Rightarrow> str \<Rightarrow> bool" where
  "startswith s p = (take (length p) s = p)"

definition send_tcp_message :: "env \<Rightarrow> nat \<Rightarrow> str \<Rightarrow> effect list" where
  "send_tcp_message e writer message =
     (case utf8_encode message of
        None \<Rightarrow> []
      | Some msg_bytes \<Rightarrow>
          (case frame (byte_order e) msg_bytes of
             None \<Rightarrow> []
           | Some buf \<Rightarrow> [TcpWrite writer buf (\<not> write_fails e writer)]))"

definition json_key :: "string \<Rightarrow> str" where
  "json_key k = json_str (ascii k) @ ascii '': ''"

definition json_status :: "client \<Rightarrow> str" where
  "json_status c =
     ascii ''{'' @ json_key ''username'' @ json_str (username c) @ ascii '', ''
     @ json_key ''video'' @ json_bool (video_active c) @ ascii '', ''
     @ json_key ''audio'' @ json_bool (audio_active c) @ ascii '', ''
     @ json_key ''screen'' @ json_bool (screen_sharing c) @ ascii ''}''"

definition broadcast_user_list :: "env \<Rightarrow> server \<Rightarrow> effect list" where
  "broadcast_user_list e s =
     (let users = map (\<lambda>(cid, c). json_status c) (clients s);
          message = ascii ''USERS:'' @ ascii ''['' @ join (ascii '', '') users @ ascii '']''
      in concat (map (\<lambda>(cid, c). send_tcp_message e (tcp_writer c) message) (clients s)))"

definition broadcast_user_status :: "env \<Rightarrow> server \<Rightarrow> str \<Rightarrow> effect list" where
  "broadcast_user_status e s sender_id =
     (case map_of (clients s) sender_id of
        None \<Rightarrow> []
      | Some c0 \<Rightarrow>
          (let msg = ascii ''STATUS:'' @ json_status c0
           in concat (map (\<lambda>(cid, c). if cid \<noteq> sender_id
                                         then send_tcp_message e (tcp_writer c) msg else [])
                          (clients s))))"

definition broadcast_chat :: "env \<Rightarrow> server \<Rightarrow> str \<Rightarrow> str \<Rightarrow> effect list" where
  "broadcast_chat e s sender_id message =
     (case map_of (clients s) sender_id of
        None \<Rightarrow> []
      | Some sender \<Rightarrow>
          (let formatted_msg = ascii ''CHAT:'' @ username sender @ ascii '':'' @ message
           in concat (map (\<lambda>(cid, c). if cid \<noteq> sender_id
                                         then send_tcp_message e (tcp_writer c) formatted_msg
                                         else [])
                          (clients s))))"

definition broadcast_file_meta :: "env \<Rightarrow> server \<Rightarrow> str \<Rightarrow> str \<Rightarrow> effect list" where
  "broadcast_file_meta e s sender_id meta_json =
     (case map_of (clients s) sender_id of
        None \<Rightarrow> []
      | Some sender \<Rightarrow>
          (let formatted_msg = ascii ''FILE_META:'' @ username sender @ ascii '':'' @ meta_json
           in concat (map (\<lambda>(cid, c). if cid \<noteq> sender_id
                                         then send_tcp_message e (tcp_writer c) formatted_msg
                                         else [])
                          (clients s))))"

text \<open>The \<open>if\<close>/\<open>elif\<close> chain of \<open>handle_control\<close> on the sender's record.\<close>

definition apply_control :: "str \<Rightarrow> client \<Rightarrow> client" where
  "apply_control control c =
     (if control = ascii ''VIDEO_ON'' then c\<lparr>video_active := True\<rparr>
      else if control = ascii ''VIDEO_OFF'' then c\<lparr>video_active := False\<rparr>
      else if control = ascii ''AUDIO_ON'' then c\<lparr>audio_active := True\<rparr>
      else if control = ascii ''AUDIO_OFF'' then c\<lparr>audio_active := False\<rparr>
      else if control = ascii ''SCREEN_ON'' then c\<lparr>screen_sharing := True\<rparr>
      else if control = ascii ''SCREEN_OFF'' then c\<lparr>screen_sharing := False\<rparr>
      else c)"

definition handle_control :: "env \<Rightarrow> server \<Rightarrow> str \<Rightarrow> str \<Rightarrow> server \<times> effect list" where
  "handle_control e s cid control =
     (case map_of (clients s) cid of
        None \<Rightarrow> (s, [])
      | Some c \<Rightarrow>
          (let s' = s\<lparr>clients := AList.update cid (apply_control control c) (clients s)\<rparr>
           in (s', broadcast_user_status e s' cid)))"

definition process_tcp_message :: "env \<Rightarrow> server \<Rightarrow> str \<Rightarrow> bytes \<Rightarrow> server \<times> effect list" where
  "process_tcp_message e s cid data =
     (case utf8_decode data of
        None \<Rightarrow> (s, [])
      | Some message \<Rightarrow>
          if startswith message (ascii ''CHAT:'')
          then (s\<lparr>total_messages := total_messages s + 1\<rparr>,
                broadcast_chat e s cid (drop 5 message))
          else if startswith message (ascii ''FILE_META:'')
          then (s, broadcast_file_meta e s cid (drop 10 message))
          else if startswith message (ascii ''CONTROL:'')
          then handle_control e s cid (drop 8 message)
          else if message = ascii ''PING''
          then (case map_of (clients s) cid of
                  None \<Rightarrow> (s, [])
                | Some c \<Rightarrow> (s, send_tcp_message e (tcp_writer c) (ascii ''PONG'')))
          else (s, []))"

text \<open>The \<open>finally\<close> block of \<open>handle_tcp_client\<close> (lines 148 to 160). \<open>cid_opt\<close> is the
  handler's local \<open>client_id\<close>, \<open>None\<close> until line 97 has run.\<close>

definition tcp_close :: "env \<Rightarrow> server \<Rightarrow> str option \<Rightarrow> nat \<Rightarrow> server \<times> effect list" where
  "tcp_close e s cid_opt writer =
     (case cid_opt of
        None \<Rightarrow> (s, [TcpClose writer])
      | Some cid \<Rightarrow>
          (case (if cid \<noteq> [] then map_of (clients s) cid else None) of
             None \<Rightarrow> (s, [TcpClose writer])
           | Some c \<Rightarrow>
               (let name = username c;
                    s1 = s\<lparr>clients := AList.delete cid (clients s)\<rparr>;
                    s2 = (if username_to_id s1 name \<noteq> None
                          then s1\<lparr>username_to_id := (username_to_id s1)(name := None)\<rparr>
                          else s1);
                    s3 = s2\<lparr>rooms_main := rooms_main s2 - {cid}\<rparr>
                in (s3, broadcast_user_list e s3 @ [TcpClose writer]))))"

text \<open>\<open>handle_tcp_client\<close> up to the message loop (lines 83 to 117), for a connection
  \<open>conn\<close> with peer name \<open>peer\<close>. \<open>data\<close> is what arrives within ten seconds (\<open>None\<close> for
  a timeout), of which \<open>read(1024)\<close> returns at most 1024 bytes; \<open>t_id\<close> and \<open>t_seen\<close> are
  the two clock readings. The result names the session when the handler enters its loop;
  on every other path the handler has ended and its \<open>finally\<close> block has run.\<close>

definition tcp_handshake ::
  "env \<Rightarrow> server \<Rightarrow> nat \<Rightarrow> address option \<Rightarrow> bytes option \<Rightarrow> real \<Rightarrow> real
     \<Rightarrow> server \<times> effect list \<times> str option" where
  "tcp_handshake e s conn peer data t_id t_seen =
     (case (case data of None \<Rightarrow> None | Some d \<Rightarrow> utf8_decode (take 1024 d)) of
        None \<Rightarrow> (let (s', out) = tcp_close e s None conn in (s', out, None))
      | Some raw \<Rightarrow>
          (let name = strip raw in
           if name = []
           then (let (s', out) = tcp_close e s None conn in (s', TcpClose conn # out, None))
           else
             (let cid = name @ ascii ''_'' @ str_int (py_int (t_id * 1000)) in
              case peer of
                None \<Rightarrow> (let (s', out) = tcp_close e s (Some cid) conn in (s', out, None))
              | Some addr \<Rightarrow>
                  (let c = \<lparr>client_id = cid, username = name, tcp_writer = conn,
                            tcp_reader = conn, udp_addr = (fst addr, udp_port s),
                            video_active = False, audio_active = False,
                            screen_sharing = False, last_seen = t_seen\<rparr>;
                       s1 = s\<lparr>clients := AList.update cid c (clients s)\<rparr>;
                       s2 = s1\<lparr>username_to_id := (username_to_id s1)(name \<mapsto> cid)\<rparr>;
                       s3 = s2\<lparr>rooms_main := insert cid (rooms_main s2)\<rparr>;
                       welcome = ascii ''CONNECTED:'' @ cid @ ascii '':'' @ name
                   in (s3, send_tcp_message e conn welcome @ broadcast_user_list e s3,
                       Some cid)))))"

text \<open>One turn of the message loop once a whole frame \<open>data\<close> has been read (lines 129 to
  133). The flag tells whether the loop goes on: the \<open>KeyError\<close> of line 130, for a
  session no longer in the table, leaves the loop.\<close>

definition tcp_frame ::
  "env \<Rightarrow> server \<Rightarrow> str \<Rightarrow> bytes \<Rightarrow> real \<Rightarrow> server \<times> effect list \<times> bool" where
  "tcp_frame e s cid data now =
     (case map_of (clients s) cid of
        None \<Rightarrow> (s, [], False)
      | Some c \<Rightarrow>
          (let s1 = s\<lparr>clients := AList.update cid (c\<lparr>last_seen := now\<rparr>) (clients s)\<rparr>;
               (s2, out) = process_tcp_message e s1 cid data
           in (s2, out, True)))"

text \<open>The unreliable channel. Lines 170 to 181 of the server and 556 to 567 of the
  client split a datagram in the same way: \<open>None\<close> is either \<open>continue\<close>.\<close>

definition split_packet :: "byteorder \<Rightarrow> bytes \<Rightarrow> (byte \<times> bytes \<times> bytes) option" where
  "split_packet bo data =
     (if length data < 3 then None
      else
        (case unpack_H bo (take 2 (drop 1 data)) of
           None \<Rightarrow> None
         | Some tag_len \<Rightarrow>
             if length data < 3 + tag_len then None
             else Some (data ! 0, take tag_len (drop 3 data), drop (3 + tag_len) data)))"

text \<open>\<open>broadcast_udp\<close>: \<open>None\<close> when building the packet raises, which the caller's
  \<open>except\<close> catches.\<close>

definition broadcast_udp :: "env \<Rightarrow> server \<Rightarrow> bytes \<Rightarrow> str \<Rightarrow> byte \<Rightarrow> effect list option" where
  "broadcast_udp e s data sender_id packet_type =
     (let sender_name = (case map_of (clients s) sender_id of
                           Some c \<Rightarrow> username c
                         | None \<Rightarrow> ascii ''Unknown'')
      in case utf8_encode sender_name of
           None \<Rightarrow> None
         | Some sender_bytes \<Rightarrow>
             (case pack_H (byte_order e) (length sender_bytes) of
                None \<Rightarrow> None
              | Some name_len \<Rightarrow>
                  (let packet = [packet_type] @ name_len @ sender_bytes @ data
                   in Some (concat (map (\<lambda>(cid, c).
                              if cid \<noteq> sender_id
                              then [UdpSend packet (udp_addr c)
                                      (\<not> sendto_fails e packet (udp_addr c))]
                              else [])
                            (clients s))))))"

text \<open>One turn of the loop of \<open>handle_udp_streams\<close> for a datagram \<open>data\<close> from \<open>addr\<close>.\<close>

definition handle_udp_packet :: "env \<Rightarrow> server \<Rightarrow> bytes \<Rightarrow> address \<Rightarrow> server \<times> effect list" where
  "handle_udp_packet e s data addr =
     (case split_packet (byte_order e) data of
        None \<Rightarrow> (s, [])
      | Some (packet_type, tag, payload) \<Rightarrow>
          (case utf8_decode tag of
             None \<Rightarrow> (s, [])
           | Some cid \<Rightarrow>
               (let s1 = (case map_of (clients s) cid of
                            None \<Rightarrow> s
                          | Some c \<Rightarrow>
                              s\<lparr>clients := AList.update cid (c\<lparr>udp_addr := addr\<rparr>) (clients s)\<rparr>)
                in case broadcast_udp e s1 payload cid packet_type of
                     None \<Rightarrow> (s1, [])
                   | Some out \<Rightarrow> (s1\<lparr>total_bytes := total_bytes s1 + length data\<rparr>, out))))"

text \<open>One turn of the loop of \<open>cleanup_inactive_clients\<close>, at clock reading
  \<open>current_time\<close>.\<close>

fun remove_inactive :: "str list \<Rightarrow> (str \<times> client) list \<Rightarrow> (str \<times> client) list" where
  "remove_inactive [] cl = cl"
| "remove_inactive (cid # inactive) cl =
     remove_inactive inactive (if map_of cl cid \<noteq> None then AList.delete cid cl else cl)"

definition cleanup_inactive_clients :: "env \<Rightarrow> server \<Rightarrow> real \<Rightarrow> server \<times> effect list" where
  "cleanup_inactive_clients e s current_time =
     (let inactive = map fst (filter (\<lambda>(cid, c). current_time - last_seen c > 300) (clients s));
          s1 = s\<lparr>clients := remove_inactive inactive (clients s)\<rparr>
      in if inactive \<noteq> [] then (s1, broadcast_user_list e s1) else (s1, []))"

text \<open>The entry points of the server, as the events that drive it.\<close>

datatype event =
    Handshake nat "address option" "bytes option" real real
  | Frame str bytes real
  | ConnectionEnd "str option" nat
  | Datagram bytes address
  | Sweep real

definition step :: "env \<Rightarrow> server \<Rightarrow> event \<Rightarrow> server" where
  "step e s ev =
     (case ev of
        Handshake conn peer data t_id t_seen \<Rightarrow> fst (tcp_handshake e s conn peer data t_id t_seen)
      | Frame cid data now \<Rightarrow> fst (tcp_frame e s cid data now)
      | ConnectionEnd cid_opt writer \<Rightarrow> fst (tcp_close e s cid_opt writer)
      | Datagram data addr \<Rightarrow> fst (handle_udp_packet e s data addr)
      | Sweep now \<Rightarrow> fst (cleanup_inactive_clients e s now))"

text \<open>What registration establishes for every entry of the client table: the key is the
  record's id and is not empty, the display name is encodable text of at most 1024 code
  points (it was decoded from at most 1024 bytes), and no two entries share a key or a
  writer.\<close>

definition client_ok :: "str \<times> client \<Rightarrow> bool" where
  "client_ok p =
     (fst p \<noteq> [] \<and> client_id (snd p) = fst p \<and> utf8_encode (username (snd p)) \<noteq> None
      \<and> length (username (snd p)) \<le> 1024)"

definition writers :: "server \<Rightarrow> nat list" where
  "writers s = map (\<lambda>p. tcp_writer (snd p)) (clients s)"

definition session_table_ok :: "server \<Rightarrow> bool" where
  "session_table_ok s = (distinct (map fst (clients s)) \<and> distinct (writers s) \<and> list_all client_ok (clients s))"

text \<open>A run of the server over a list of events, and the condition that every handshake
  of the run comes on a connection of its own: its writer is not in the table yet.\<close>

fun run :: "env \<Rightarrow> server \<Rightarrow> event list \<Rightarrow> server" where
  "run e s [] = s"
| "run e s (ev # evs) = run e (step e s ev) evs"

fun new_connections :: "env \<Rightarrow> server \<Rightarrow> event list \<Rightarrow> bool" where
  "new_connections e s [] = True"
| "new_connections e s (ev # evs) =
     ((case ev of
         Handshake conn peer data t_id t_seen \<Rightarrow> conn \<notin> set (writers s)
       | _ \<Rightarrow> True)
      \<and> new_connections e (step e s ev) evs)"

section \<open>The client (\<open>client_core.py\<close>)\<close>

datatype socket_state = Open | Closed

text \<open>The fields of \<open>ScalableCommClient\<close> that \<open>connect\<close> touches; \<open>tcp_writer_cl\<close> is
  \<open>None\<close> until a connection has been opened, \<open>receivers_started\<close> stands for the two
  receiver threads.\<close>

record comm_client =
  tcp_writer_cl :: "socket_state option"
  connected_cl :: bool
  client_id_cl :: "str option"
  username_cl :: "str option"
  receivers_started :: bool

definition new_client :: comm_client where
  "new_client =
     \<lparr>tcp_writer_cl = None, connected_cl = False, client_id_cl = None, username_cl = None,
      receivers_started = False\<rparr>"

text \<open>\<open>str.split(sep)\<close> for a separator of one character.\<close>

fun split_on :: "nat \<Rightarrow> str \<Rightarrow> str list" where
  "split_on sep [] = [[]]"
| "split_on sep (c # cs) =
     (if c = sep then [] # split_on sep cs
      else (case split_on sep cs of
              p # ps \<Rightarrow> (c # p) # ps
            | [] \<Rightarrow> [[c]]))"

text \<open>\<open>connect\<close>. \<open>opened\<close>: \<open>open_connection\<close> returned within its timeout;
  \<open>write_ok\<close>: writing the name did not raise; \<open>incoming\<close>: the bytes that arrive from
  the server before the reads time out or the connection ends. Every exception returns
  \<open>False\<close>.\<close>

definition connect ::
  "byteorder \<Rightarrow> comm_client \<Rightarrow> str \<Rightarrow> bool \<Rightarrow> bool \<Rightarrow> bytes \<Rightarrow> comm_client \<times> bool" where
  "connect bo c name opened write_ok incoming =
     (let c0 = c\<lparr>username_cl := Some name\<rparr> in
      if \<not> opened then (c0, False)
      else
        (let c1 = c0\<lparr>tcp_writer_cl := Some Open\<rparr> in
         if utf8_encode name = None \<or> \<not> write_ok then (c1, False)
         else
           (case read_frame bo incoming of
              None \<Rightarrow> (c1, False)
            | Some (data, rest) \<Rightarrow>
                (case utf8_decode data of
                   None \<Rightarrow> (c1, False)
                 | Some response \<Rightarrow>
                     if startswith response (ascii ''CONNECTED:'')
                     then (case split_on 58 response of
                             p0 # p1 # ps \<Rightarrow>
                               (c1\<lparr>client_id_cl := Some p1, connected_cl := True,
                                   receivers_started := True\<rparr>, True)
                           | _ \<Rightarrow> (c1, False))
                     else (c1, False)))))"

text \<open>\<open>disconnect\<close>, on the fields above: the only place where the client closes its
  socket (\<open>__del__\<close> calls it too).\<close>

definition disconnect :: "comm_client \<Rightarrow> comm_client" where
  "disconnect c =
     c\<lparr>connected_cl := False,
       tcp_writer_cl := (case tcp_writer_cl c of None \<Rightarrow> None | Some w \<Rightarrow> Some Closed)\<rparr>"


text \<open>One turn of \<open>receive_udp_loop\<close> for a datagram \<open>data\<close>: what is handed to the
  callbacks. \<open>imdecode\<close> is \<open>cv2.imdecode\<close> (\<open>None\<close>: no frame); the three flags tell
  which callbacks are set.\<close>

datatype 'f delivery = VideoFrame str 'f | AudioChunk str bytes | ScreenFrame str 'f

definition receive_udp ::
  "byteorder \<Rightarrow> (bytes \<Rightarrow> 'f option) \<Rightarrow> bool \<Rightarrow> bool \<Rightarrow> bool \<Rightarrow> bytes \<Rightarrow> 'f delivery list" where
  "receive_udp bo imdecode on_video_frame on_audio_chunk on_screen_frame data =
     (case split_packet bo data of
        None \<Rightarrow> []
      | Some (packet_type, tag, payload) \<Rightarrow>
          (case utf8_decode tag of
             None \<Rightarrow> []
           | Some sender \<Rightarrow>
               if packet_type = 1 \<and> on_video_frame
               then (case imdecode payload of
                       None \<Rightarrow> []
                     | Some img \<Rightarrow> [VideoFrame sender img])
               else if packet_type = 2 \<and> on_audio_chunk
               then [AudioChunk sender payload]
               else if packet_type = 3 \<and> on_screen_frame
               then (case imdecode payload of
                       None \<Rightarrow> []
                     | Some img \<Rightarrow> [ScreenFrame sender img])
               else []))"

section \<open>Example runs\<close>

text \<open>A little-endian host on which no send fails, and the server after the handshakes
  of the scenarios: \<open>alice\<close> at clock reading 1, then \<open>bob\<close> or a second \<open>alice\<close> at
  clock reading 2.\<close>

definition quiet :: env where
  "quiet = \<lparr>byte_order = Little, write_fails = (\<lambda>w. False), sendto_fails = (\<lambda>p a. False)\<rparr>"

definition ascii_bytes :: "string \<Rightarrow> bytes" where
  "ascii_bytes cs = map of_nat (ascii cs)"

definition s_alice :: server where
  "s_alice =
     fst (tcp_handshake quiet (init_server 9001) 1 (Some (ascii ''10.0.0.5'', 50000))
            (Some (ascii_bytes ''alice'')) 1 1)"

definition s_alice_bob :: server where
  "s_alice_bob =
     fst (tcp_handshake quiet s_alice 2 (Some (ascii ''10.0.0.6'', 50001))
            (Some (ascii_bytes ''bob'')) 2 2)"

definition s_two_alices :: server where
  "s_two_alices =
     fst (tcp_handshake quiet s_alice 2 (Some (ascii ''10.0.0.6'', 50001))
            (Some (ascii_bytes ''alice'')) 2 2)"

definition alice_rec :: client where
  "alice_rec =
     \<lparr>client_id = ascii ''alice_1000'', username = ascii ''alice'', tcp_writer = 1,
      tcp_reader = 1, udp_addr = (ascii ''10.0.0.5'', 9001), video_active = False,
      audio_active = False, screen_sharing = False, last_seen = 1\<rparr>"

definition bob_rec :: client where
  "bob_rec =
     \<lparr>client_id = ascii ''bob_2000'', username = ascii ''bob'', tcp_writer = 2,
      tcp_reader = 2, udp_addr = (ascii ''10.0.0.6'', 9001), video_active = False,
      audio_active = False, screen_sharing = False, last_seen = 2\<rparr>"

definition alice2_rec :: client where
  "alice2_rec =
     \<lparr>client_id = ascii ''alice_2000'', username = ascii ''alice'', tcp_writer = 2,
      tcp_reader = 2, udp_addr = (ascii ''10.0.0.6'', 9001), video_active = False,
      audio_active = False, screen_sharing = False, last_seen = 2\<rparr>"

definition quoted :: "string \<Rightarrow> bytes" where
  "quoted cs = [34] @ ascii_bytes cs @ [34]"

section \<open>Properties of the codec and of the wire formats\<close>

lemma dm64: "y < 64 \<Longrightarrow> (a * 64 + y) div 64 = (a::nat)" "y < 64 \<Longrightarrow> (a * 64 + y) mod 64 = (y::nat)"
  by simp_all

lemma dm3: assumes "x < 64" "y < 64"
  shows "(a * 4096 + x * 64 + y) div 4096 = (a::nat)"
    "(a * 4096 + x * 64 + y) div 64 mod 64 = (x::nat)"
    "(a * 4096 + x * 64 + y) mod 64 = (y::nat)"
proof -
  have e: "a * 4096 + x * 64 + y = (a * 64 + x) * 64 + y" by simp
  show "(a * 4096 + x * 64 + y) mod 64 = y" unfolding e by (rule dm64(2) [OF assms(2)])
  have d: "(a * 4096 + x * 64 + y) div 64 = a * 64 + x" unfolding e by (rule dm64(1) [OF assms(2)])
  show "(a * 4096 + x * 64 + y) div 64 mod 64 = x" unfolding d by (rule dm64(2) [OF assms(1)])
  have "(a * 4096 + x * 64 + y) div 4096 = (a * 4096 + x * 64 + y) div 64 div 64"
    by (simp add: div_mult2_eq)
  then show "(a * 4096 + x * 64 + y) div 4096 = a" unfolding d using dm64(1) [OF assms(1)] by simp
qed

lemma dm4: assumes "x < 64" "y < 64" "z < 64"
  shows "(a * 262144 + x * 4096 + y * 64 + z) div 262144 = (a::nat)"
    "(a * 262144 + x * 4096 + y * 64 + z) div 4096 mod 64 = (x::nat)"
    "(a * 262144 + x * 4096 + y * 64 + z) div 64 mod 64 = (y::nat)"
    "(a * 262144 + x * 4096 + y * 64 + z) mod 64 = (z::nat)"
proof -
  have e: "a * 262144 + x * 4096 + y * 64 + z = ((a * 64 + x) * 64 + y) * 64 + z" by simp
  show "(a * 262144 + x * 4096 + y * 64 + z) mod 64 = z" unfolding e by (rule dm64(2) [OF assms(3)])
  have d: "(a * 262144 + x * 4096 + y * 64 + z) div 64 = (a * 64 + x) * 64 + y"
    unfolding e by (rule dm64(1) [OF assms(3)])
  show "(a * 262144 + x * 4096 + y * 64 + z) div 64 mod 64 = y"
    unfolding d by (rule dm64(2) [OF assms(2)])
  have d2: "(a * 262144 + x * 4096 + y * 64 + z) div 4096 = a * 64 + x"
  proof -
    have "(a * 262144 + x * 4096 + y * 64 + z) div 4096
        = (a * 262144 + x * 4096 + y * 64 + z) div 64 div 64" by (simp add: div_mult2_eq)
    also have "\<dots> = ((a * 64 + x) * 64 + y) div 64" unfolding d ..
    also have "\<dots> = a * 64 + x" by (rule dm64(1) [OF assms(2)])
    finally show ?thesis .
  qed
  show "(a * 262144 + x * 4096 + y * 64 + z) div 4096 mod 64 = x"
    unfolding d2 by (rule dm64(2) [OF assms(1)])
  have "(a * 262144 + x * 4096 + y * 64 + z) div 262144
        = (a * 262144 + x * 4096 + y * 64 + z) div 4096 div 64" by (simp add: div_mult2_eq)
  also have "\<dots> = (a * 64 + x) div 64" unfolding d2 ..
  also have "\<dots> = a" by (rule dm64(1) [OF assms(1)])
  finally show "(a * 262144 + x * 4096 + y * 64 + z) div 262144 = a" .
qed

lemma enc2: assumes "194 \<le> b0" "b0 < 224" "cont b1"
  shows "utf8_encode1 ((b0 - 192) * 64 + (b1 - 128)) = Some [b0, b1]"
proof -
  obtain a where a: "b0 = 192 + a" using assms(1) le_Suc_ex [of 192 b0] by auto
  obtain x where x: "b1 = 128 + x" using assms(3) le_Suc_ex [of 128 b1] by (auto simp: cont_def)
  have bx: "x < 64" and ba: "2 \<le> a" "a < 32" using assms a x by (auto simp: cont_def)
  have lo: "\<not> a * 64 + x < 128" using ba by linarith
  have hi: "a * 64 + x < 2048" using ba bx by linarith
  show ?thesis unfolding a x utf8_encode1_def using lo hi bx by (simp add: dm64)
qed

lemma enc3: assumes "224 \<le> b0" "b0 < 240" "cont b1" "cont b2"
   "if b0 = 224 then 160 \<le> b1 else True" "if b0 = 237 then b1 < 160 else True"
  shows "utf8_encode1 ((b0 - 224) * 4096 + (b1 - 128) * 64 + (b2 - 128)) = Some [b0, b1, b2]"
proof -
  obtain a where a: "b0 = 224 + a" using assms(1) le_Suc_ex [of 224 b0] by auto
  obtain x where x: "b1 = 128 + x" using assms(3) le_Suc_ex [of 128 b1] by (auto simp: cont_def)
  obtain y where y: "b2 = 128 + y" using assms(4) le_Suc_ex [of 128 b2] by (auto simp: cont_def)
  have b: "x < 64" "y < 64" "a < 16" using assms a x y by (auto simp: cont_def)
  have a0: "a = 0 \<Longrightarrow> 32 \<le> x" using assms(5) a x by (auto split: if_splits)
  have a13: "a = 13 \<Longrightarrow> x < 32" using assms(6) a x by (auto split: if_splits)
  have lo: "\<not> a * 4096 + x * 64 + y < 2048" using a0 by (cases "a = 0") auto
  have sur: "\<not> (55296 \<le> a * 4096 + x * 64 + y \<and> a * 4096 + x * 64 + y < 57344)"
  proof (cases "a < 13")
    case True then show ?thesis using b by linarith
  next
    case False
    show ?thesis
    proof (cases "a = 13")
      case True then show ?thesis using a13 b by auto
    next
      case False with \<open>\<not> a < 13\<close> have "14 \<le> a" by simp
      then show ?thesis by linarith
    qed
  qed
  have hi: "a * 4096 + x * 64 + y < 65536" using b by linarith
  have n128: "\<not> a * 4096 + x * 64 + y < 128" using lo by linarith
  show ?thesis unfolding a x y utf8_encode1_def using lo sur hi n128 b by (simp add: dm3)
qed

lemma enc4: assumes "240 \<le> b0" "b0 < 245" "cont b1" "cont b2" "cont b3"
   "if b0 = 240 then 144 \<le> b1 else True" "if b0 = 244 then b1 < 144 else True"
  shows "utf8_encode1 ((b0 - 240) * 262144 + (b1 - 128) * 4096 + (b2 - 128) * 64 + (b3 - 128))
     = Some [b0, b1, b2, b3]"
proof -
  obtain a where a: "b0 = 240 + a" using assms(1) le_Suc_ex [of 240 b0] by auto
  obtain x where x: "b1 = 128 + x" using assms(3) le_Suc_ex [of 128 b1] by (auto simp: cont_def)
  obtain y where y: "b2 = 128 + y" using assms(4) le_Suc_ex [of 128 b2] by (auto simp: cont_def)
  obtain z where z: "b3 = 128 + z" using assms(5) le_Suc_ex [of 128 b3] by (auto simp: cont_def)
  have b: "x < 64" "y < 64" "z < 64" "a < 5" using assms a x y z by (auto simp: cont_def)
  have a0: "a = 0 \<Longrightarrow> 16 \<le> x" using assms(6) a x by (auto split: if_splits)
  have a4: "a = 4 \<Longrightarrow> x < 16" using assms(7) a x by (auto split: if_splits)
  let ?c = "a * 262144 + x * 4096 + y * 64 + z"
  have lo: "\<not> ?c < 65536" using a0 by (cases "a = 0") auto
  have hi: "?c < 1114112"
  proof (cases "a = 4")
    case True then show ?thesis using a4 b by auto
  next
    case False then have "a \<le> 3" using b by simp
    then show ?thesis using b by linarith
  qed
  have n: "\<not> ?c < 128" "\<not> ?c < 2048" "\<not> (55296 \<le> ?c \<and> ?c < 57344)" using lo by linarith+
  show ?thesis unfolding a x y z utf8_encode1_def using lo hi n b by (simp add: dm4)
qed

lemma enc1: "b0 < 128 \<Longrightarrow> utf8_encode1 b0 = Some [b0]"
  by (simp add: utf8_encode1_def)

lemma dec1: "b0 < 128 \<Longrightarrow> utf8_decode_nat (b0 # bs) = map_option ((#) b0) (utf8_decode_nat bs)"
  by simp

lemma dec2: "194 \<le> b0 \<Longrightarrow> b0 < 224 \<Longrightarrow> utf8_decode_nat (b0 # bs) = Some s \<Longrightarrow>
  \<exists>b1 r s'. bs = b1 # r \<and> cont b1 \<and> utf8_decode_nat r = Some s'
     \<and> s = ((b0 - 192) * 64 + (b1 - 128)) # s'"
  by (cases bs) (auto split: if_splits)

lemma dec3: "224 \<le> b0 \<Longrightarrow> b0 < 240 \<Longrightarrow> utf8_decode_nat (b0 # bs) = Some s \<Longrightarrow>
  \<exists>b1 b2 r s'. bs = b1 # b2 # r \<and> cont b1 \<and> cont b2
     \<and> (if b0 = 224 then 160 \<le> b1 else True) \<and> (if b0 = 237 then b1 < 160 else True)
     \<and> utf8_decode_nat r = Some s'
     \<and> s = ((b0 - 224) * 4096 + (b1 - 128) * 64 + (b2 - 128)) # s'"
proof -
  assume r: "224 \<le> b0" "b0 < 240" and d: "utf8_decode_nat (b0 # bs) = Some s"
  from r have n: "\<not> b0 < 128" "\<not> (194 \<le> b0 \<and> b0 < 224)" by auto
  show ?thesis
  proof (cases bs)
    case Nil with d r n show ?thesis by simp
  next
    case (Cons b1 t)
    show ?thesis
    proof (cases t)
      case Nil with Cons d r n show ?thesis by simp
    next
      case (Cons b2 u)
      with \<open>bs = b1 # t\<close> d r n show ?thesis
        by (simp split: if_split_asm)
    qed
  qed
qed

lemma dec4: "240 \<le> b0 \<Longrightarrow> b0 < 245 \<Longrightarrow> utf8_decode_nat (b0 # bs) = Some s \<Longrightarrow>
  \<exists>b1 b2 b3 r s'. bs = b1 # b2 # b3 # r \<and> cont b1 \<and> cont b2 \<and> cont b3
     \<and> (if b0 = 240 then 144 \<le> b1 else True) \<and> (if b0 = 244 then b1 < 144 else True)
     \<and> utf8_decode_nat r = Some s'
     \<and> s = ((b0 - 240) * 262144 + (b1 - 128) * 4096 + (b2 - 128) * 64 + (b3 - 128)) # s'"
proof -
  assume r: "240 \<le> b0" "b0 < 245" and d: "utf8_decode_nat (b0 # bs) = Some s"
  from r have n: "\<not> b0 < 128" "\<not> (194 \<le> b0 \<and> b0 < 224)" "\<not> (224 \<le> b0 \<and> b0 < 240)" by auto
  show ?thesis
  proof (cases bs)
    case Nil with d r n show ?thesis by simp
  next
    case (Cons b1 t)
    note c1 = this
    show ?thesis
    proof (cases t)
      case Nil with c1 d r n show ?thesis by simp
    next
      case (Cons b2 u)
      note c2 = this
      show ?thesis
      proof (cases u)
        case Nil with c1 c2 d r n show ?thesis by simp
      next
        case (Cons b3 v)
        with c1 c2 d r n show ?thesis
          by (simp split: if_split_asm)
      qed
    qed
  qed
qed

lemma dec_other: "128 \<le> b0 \<Longrightarrow> b0 < 194 \<or> 245 \<le> b0 \<Longrightarrow> utf8_decode_nat (b0 # bs) = None"
  by auto

lemma utf8_encode_decode_nat: "utf8_decode_nat b = Some s \<Longrightarrow> utf8_encode_nat s = Some b"
proof (induction "length b" arbitrary: b s rule: less_induct)
  case less
  show ?case
  proof (cases b)
    case Nil
    with less.prems show ?thesis by simp
  next
    case (Cons b0 bs)
    consider (one) "b0 < 128" | (two) "194 \<le> b0" "b0 < 224" | (three) "224 \<le> b0" "b0 < 240"
      | (four) "240 \<le> b0" "b0 < 245"
      | (bad) "128 \<le> b0" "b0 < 194 \<or> 245 \<le> b0"
      by linarith
    then show ?thesis
    proof cases
      case one
      with less.prems Cons obtain s' where s': "utf8_decode_nat bs = Some s'" "s = b0 # s'"
        by (auto simp: dec1)
      have "utf8_encode_nat s' = Some bs" using less.hyps [of bs s'] s' Cons by simp
      then show ?thesis using s' Cons one by (simp add: enc1)
    next
      case two
      from dec2 [OF two less.prems [unfolded Cons]]
      obtain b1 r s' where p: "bs = b1 # r" "cont b1" "utf8_decode_nat r = Some s'"
        "s = ((b0 - 192) * 64 + (b1 - 128)) # s'" by blast
      have "utf8_encode_nat s' = Some r" using less.hyps [of r s'] p Cons by simp
      then show ?thesis using p Cons enc2 [OF two p(2)] by simp
    next
      case three
      from dec3 [OF three less.prems [unfolded Cons]]
      obtain b1 b2 r s' where p: "bs = b1 # b2 # r" "cont b1" "cont b2"
        "if b0 = 224 then 160 \<le> b1 else True" "if b0 = 237 then b1 < 160 else True"
        "utf8_decode_nat r = Some s'"
        "s = ((b0 - 224) * 4096 + (b1 - 128) * 64 + (b2 - 128)) # s'" by blast
      have "utf8_encode_nat s' = Some r" using less.hyps [of r s'] p Cons by simp
      then show ?thesis using p(1,7) Cons enc3 [OF three p(2,3,4,5)] by simp
    next
      case four
      from dec4 [OF four less.prems [unfolded Cons]]
      obtain b1 b2 b3 r s' where p: "bs = b1 # b2 # b3 # r" "cont b1" "cont b2" "cont b3"
        "if b0 = 240 then 144 \<le> b1 else True" "if b0 = 244 then b1 < 144 else True"
        "utf8_decode_nat r = Some s'"
        "s = ((b0 - 240) * 262144 + (b1 - 128) * 4096 + (b2 - 128) * 64 + (b3 - 128)) # s'"
        by blast
      have "utf8_encode_nat s' = Some r" using less.hyps [of r s'] p Cons by simp
      then show ?thesis using p(1,8) Cons enc4 [OF four p(2,3,4,5,6)] by simp
    next
      case bad
      from dec_other [OF bad] less.prems Cons show ?thesis by simp
    qed
  qed
qed

lemma utf8_encode_decode: "utf8_decode data = Some s \<Longrightarrow> utf8_encode s = Some data"
  by (simp add: utf8_decode_def utf8_encode_def utf8_encode_decode_nat [of "map unat data" s]
      comp_def)

lemma encode1_length: "utf8_encode1 c = Some b \<Longrightarrow> 1 \<le> length b \<and> length b \<le> 4"
  by (auto simp: utf8_encode1_def split: if_splits)

lemma encode_nat_length:
  "utf8_encode_nat s = Some b \<Longrightarrow> length s \<le> length b \<and> length b \<le> 4 * length s"
proof (induction s arbitrary: b)
  case Nil
  then show ?case by simp
next
  case (Cons c cs)
  then obtain x y where xy: "utf8_encode1 c = Some x" "utf8_encode_nat cs = Some y" "b = x @ y"
    by (auto split: option.splits)
  from Cons.IH [OF xy(2)] encode1_length [OF xy(1)] xy(3) show ?case by simp
qed

lemma encode_length:
  "utf8_encode s = Some b \<Longrightarrow> length s \<le> length b \<and> length b \<le> 4 * length s"
  using encode_nat_length by (fastforce simp: utf8_encode_def)

lemma decode_length: "utf8_decode data = Some s \<Longrightarrow> length s \<le> length data"
  using encode_length [OF utf8_encode_decode] by blast



lemma encode_nat_ascii: "list_all (\<lambda>c. c < 128) s \<Longrightarrow> utf8_encode_nat s = Some s"
  by (induction s) (auto simp: utf8_encode1_def)

lemma encode_ascii: "list_all (\<lambda>c. c < 128) s \<Longrightarrow> utf8_encode s = Some (map of_nat s)"
  by (simp add: utf8_encode_def encode_nat_ascii)

lemma encode_ok_iff: "utf8_encode s \<noteq> None \<longleftrightarrow> list_all (\<lambda>c. utf8_encode1 c \<noteq> None) s"
  unfolding utf8_encode_def by (induction s) (auto split: option.splits)

lemma strip_subset: "set (strip s) \<subseteq> set s"
proof
  fix x
  assume "x \<in> set (strip s)"
  then have "x \<in> set (dropWhile isspace (rev (dropWhile isspace s)))" by (simp add: strip_def)
  then have "x \<in> set (rev (dropWhile isspace s))" by (rule set_dropWhileD)
  then have "x \<in> set (dropWhile isspace s)" by simp
  then show "x \<in> set s" by (rule set_dropWhileD)
qed

lemma strip_length: "length (strip s) \<le> length s"
  unfolding strip_def
  using length_dropWhile_le [of isspace s] length_dropWhile_le [of isspace "rev (dropWhile isspace s)"]
  by simp

lemma encode_strip: "utf8_encode s \<noteq> None \<Longrightarrow> utf8_encode (strip s) \<noteq> None"
  unfolding encode_ok_iff list_all_iff using strip_subset by blast

lemma decode_ascii_prefix:
  "list_all (\<lambda>c. c < 128) p \<Longrightarrow>
     utf8_decode (map of_nat p @ data) = map_option ((@) p) (utf8_decode data)"
proof (induction p)
  case Nil
  show ?case by (simp add: option.map_ident)
next
  case (Cons c p)
  then have c: "c < 128" and p: "list_all (\<lambda>c. c < 128) p" by simp_all
  have u: "unat (of_nat c :: byte) = c" using c by (simp add: unat_of_nat)
  from Cons.IH [OF p] show ?case
    using c by (simp add: utf8_decode_def u option.map_comp comp_def)
qed

lemma ascii_lt: "list_all (\<lambda>c. c < 128) (ascii cs) \<longleftrightarrow> list_all (\<lambda>c. of_char c < (128::nat)) cs"
  by (simp add: ascii_def list_all_iff)

lemma le_bytes2: "(n::nat) mod 256 + 256 * (n div 256) = n"
  by simp



lemma unpack_pack_H: "pack_H bo n = Some b \<Longrightarrow> unpack_H bo b = Some n"
  by (cases bo)
     (auto simp: pack_H_def unpack_H_def native_def unat_of_nat le_bytes2 split: if_splits)


lemma pack_H_length: "pack_H bo n = Some b \<Longrightarrow> length b = 2"
  by (cases bo) (auto simp: pack_H_def native_def split: if_splits)

lemma pack_I_Some: "n < 4294967296 \<Longrightarrow> \<exists>b. pack_I bo n = Some b"
  by (simp add: pack_I_def)



lemma encode_ascii_bytes:
  "list_all (\<lambda>c. of_char c < (128::nat)) cs \<Longrightarrow> utf8_encode (ascii cs) = Some (ascii_bytes cs)"
  by (simp add: ascii_bytes_def encode_ascii ascii_lt)

lemma decode_ascii_bytes_prefix:
  "list_all (\<lambda>c. of_char c < (128::nat)) cs \<Longrightarrow>
     utf8_decode (ascii_bytes cs @ data) = map_option ((@) (ascii cs)) (utf8_decode data)"
  by (simp add: ascii_bytes_def decode_ascii_prefix ascii_lt)

lemma decode_ascii_bytes:
  "list_all (\<lambda>c. of_char c < (128::nat)) cs \<Longrightarrow> utf8_decode (ascii_bytes cs) = Some (ascii cs)"
  using decode_ascii_bytes_prefix [of cs "[]"] by (simp add: utf8_decode_def)


lemma hex_digit_lt: "hex_digit (n mod 16) < 128"
proof -
  have "n mod 16 < 16" by simp
  then have "n mod 16 < 41" by linarith
  then show ?thesis unfolding hex_digit_def by simp
qed

lemma u_escape_ascii: "list_all (\<lambda>c. c < 128) (u_escape c)"
  by (simp add: u_escape_def hex_digit_lt)

lemma u_escape_length: "length (u_escape c) = 6"
  by (simp add: u_escape_def)

lemma json_escape_char_ascii: "list_all (\<lambda>c. c < 128) (json_escape_char c)"
  by (simp add: json_escape_char_def u_escape_ascii)

lemma json_escape_char_length: "length (json_escape_char c) \<le> 12"
  by (simp add: json_escape_char_def u_escape_length)

lemma json_str_ascii: "list_all (\<lambda>c. c < 128) (json_str s)"
  by (simp add: json_str_def list_all_iff) (use json_escape_char_ascii in \<open>auto simp: list_all_iff\<close>)

lemma concat_escape_length: "length (concat (map json_escape_char s)) \<le> 12 * length s"
proof (induction s)
  case Nil
  show ?case by simp
next
  case (Cons c s)
  with json_escape_char_length [of c] show ?case by simp
qed

lemma json_str_length: "length (json_str s) \<le> 12 * length s + 2"
  using concat_escape_length [of s] by (simp add: json_str_def)

lemma json_bool_ascii: "list_all (\<lambda>c. c < 128) (json_bool b)"
  by (simp add: json_bool_def ascii_def)

lemma json_bool_length: "length (json_bool b) \<le> 5"
  by (simp add: json_bool_def ascii_def)

lemma json_status_ascii: "list_all (\<lambda>c. c < 128) (json_status c)"
  by (simp add: json_status_def json_key_def json_str_ascii json_bool_ascii ascii_def)

lemma json_status_length: "length (json_status c) \<le> 12 * length (username c) + 100"
  using json_str_length [of "username c"] json_bool_length [of "video_active c"]
    json_bool_length [of "audio_active c"] json_bool_length [of "screen_sharing c"]
  by (simp add: json_status_def json_key_def json_str_def json_escape_char_def ascii_def)




section \<open>Properties of the server\<close>

lemma concat_map_if: "concat (map (\<lambda>x. if P x then [f x] else []) xs) = map f (filter P xs)"
  by (induction xs) auto

lemma send_tcp_message_ok:
  assumes "utf8_encode m = Some mb" and "pack_I (byte_order e) (length mb) = Some l"
  shows "send_tcp_message e w m = [TcpWrite w (l @ mb) (\<not> write_fails e w)]"
  using assms by (simp add: send_tcp_message_def frame_def)

lemma fanout_tcp:
  assumes "utf8_encode m = Some mb" and "pack_I (byte_order e) (length mb) = Some l"
  shows "concat (map (\<lambda>(cid, c). if cid \<noteq> sid then send_tcp_message e (tcp_writer c) m else []) cl)
       = map (\<lambda>p. TcpWrite (tcp_writer (snd p)) (l @ mb) (\<not> write_fails e (tcp_writer (snd p))))
           (filter (\<lambda>p. fst p \<noteq> sid) cl)"
  by (induction cl) (auto simp: send_tcp_message_ok [OF assms])

lemma write_recipient:
  "TcpWrite w buf ok \<in> set (map (\<lambda>p. TcpWrite (f p) b (g p)) xs) \<Longrightarrow> \<exists>p \<in> set xs. f p = w"
  by auto

lemma others_count:
  "distinct (map fst cl) \<Longrightarrow> map_of cl k = Some v \<Longrightarrow>
     length (filter (\<lambda>p. fst p \<noteq> k) cl) = length cl - 1"
proof (induction cl)
  case Nil
  then show ?case by simp
next
  case (Cons p cl)
  show ?case
  proof (cases "fst p = k")
    case True
    from Cons.prems(1) have "fst p \<notin> fst ` set cl" by simp
    with True have "\<forall>q \<in> set cl. fst q \<noteq> k" by (metis imageI)
    then have "filter (\<lambda>q. fst q \<noteq> k) cl = cl" by (simp add: filter_id_conv)
    with True show ?thesis by simp
  next
    case False
    with Cons.prems have m: "map_of cl k = Some v" and d: "distinct (map fst cl)"
      by (auto split: if_splits)
    from m have "cl \<noteq> []" by auto
    then have "0 < length cl" by simp
    with Cons.IH [OF d m] False show ?thesis by simp
  qed
qed

lemma other_writer:
  assumes "distinct (map (\<lambda>p. tcp_writer (snd p)) cl)" and "map_of cl k = Some v"
    and "p \<in> set cl" and "fst p \<noteq> k"
  shows "tcp_writer (snd p) \<noteq> tcp_writer v"
proof -
  from assms(2) have kv: "(k, v) \<in> set cl" by (rule map_of_SomeD)
  from assms(1) have "inj_on (\<lambda>p. tcp_writer (snd p)) (set cl)" by (simp add: distinct_map)
  from inj_onD [OF this, of p "(k, v)"] assms(3,4) kv show ?thesis by auto
qed

lemma tcp_close_state:
  assumes "map_of (clients s) a = Some ca" and "a \<noteq> []"
  shows "fst (tcp_close e s (Some a) w) =
           s\<lparr>clients := AList.delete a (clients s),
             username_to_id := (username_to_id s)(username ca := None),
             rooms_main := rooms_main s - {a}\<rparr>"
  using assms by (auto simp: tcp_close_def Let_def fun_upd_idem)





lemma filter_update_other:
  "filter (\<lambda>p. fst p \<noteq> k) (AList.update k v cl) = filter (\<lambda>p. fst p \<noteq> k) cl"
  by (induction cl) auto

lemma apply_control_keeps:
  "tcp_writer (apply_control control c) = tcp_writer c"
  "username (apply_control control c) = username c"
  "udp_addr (apply_control control c) = udp_addr c"
  "client_id (apply_control control c) = client_id c"
  by (simp_all add: apply_control_def)

lemma handle_control_eq:
  assumes "map_of (clients s) sid = Some sender"
    and "utf8_encode (ascii ''STATUS:'' @ json_status (apply_control control sender)) = Some msg"
    and "pack_I (byte_order e) (length msg) = Some prefix"
  shows "handle_control e s sid control =
           (s\<lparr>clients := AList.update sid (apply_control control sender) (clients s)\<rparr>,
            map (\<lambda>p. TcpWrite (tcp_writer (snd p)) (prefix @ msg)
                       (\<not> write_fails e (tcp_writer (snd p))))
              (filter (\<lambda>p. fst p \<noteq> sid) (clients s)))"
  using assms
  by (simp add: handle_control_def broadcast_user_status_def Let_def update_conv'
      fanout_tcp [OF assms(2,3)] filter_update_other)

lemma process_control:
  assumes "cs \<in> set [''VIDEO_ON'', ''VIDEO_OFF'', ''AUDIO_ON'', ''AUDIO_OFF'', ''SCREEN_ON'',
      ''SCREEN_OFF'']"
  shows "process_tcp_message e s sid (ascii_bytes (''CONTROL:'' @ cs)) = handle_control e s sid (ascii cs)"
proof -
  have a: "list_all (\<lambda>c. of_char c < (128::nat)) (''CONTROL:'' @ cs)" using assms by auto
  have d: "utf8_decode (ascii_bytes (''CONTROL:'' @ cs)) = Some (ascii (''CONTROL:'' @ cs))"
    by (rule decode_ascii_bytes [OF a])
  show ?thesis unfolding process_tcp_message_def d
    by (simp add: startswith_def ascii_def)
qed

lemma status_message:
  assumes "length (username c) \<le> 1024"
  shows "utf8_encode (ascii ''STATUS:'' @ json_status c) = Some (map of_nat (ascii ''STATUS:'' @ json_status c))"
    and "length (map of_nat (ascii ''STATUS:'' @ json_status c) :: bytes) < 4294967296"
proof -
  have "list_all (\<lambda>c. c < 128) (ascii ''STATUS:'' @ json_status c)"
    using json_status_ascii [of c] by (simp add: ascii_def)
  then show "utf8_encode (ascii ''STATUS:'' @ json_status c)
      = Some (map of_nat (ascii ''STATUS:'' @ json_status c))"
    by (rule encode_ascii)
  from json_status_length [of c] assms
  show "length (map of_nat (ascii ''STATUS:'' @ json_status c) :: bytes) < 4294967296"
    by (simp add: ascii_def)
qed

lemma distinct_writes:
  "distinct (map f xs) \<Longrightarrow> distinct (map (\<lambda>p. TcpWrite (f p) buf (g p)) xs)"
  by (induction xs) auto

lemma six_cases: "cs \<in> set [''VIDEO_ON'', ''VIDEO_OFF'', ''AUDIO_ON'', ''AUDIO_OFF'', ''SCREEN_ON'',
           ''SCREEN_OFF''] \<Longrightarrow> cs = ''VIDEO_ON'' \<or> cs = ''VIDEO_OFF'' \<or> cs = ''AUDIO_ON''
    \<or> cs = ''AUDIO_OFF'' \<or> cs = ''SCREEN_ON'' \<or> cs = ''SCREEN_OFF''"
  by simp

lemma apply_control_six:
  assumes "cs \<in> set [''VIDEO_ON'', ''VIDEO_OFF'', ''AUDIO_ON'', ''AUDIO_OFF'', ''SCREEN_ON'',
           ''SCREEN_OFF'']"
  shows "apply_control (ascii cs) c = c
           \<lparr>video_active := (if cs = ''VIDEO_ON'' then True
                              else if cs = ''VIDEO_OFF'' then False else video_active c),
            audio_active := (if cs = ''AUDIO_ON'' then True
                              else if cs = ''AUDIO_OFF'' then False else audio_active c),
            screen_sharing := (if cs = ''SCREEN_ON'' then True
                                else if cs = ''SCREEN_OFF'' then False
                                else screen_sharing c)\<rparr>"
  using six_cases [OF assms]
  apply (elim disjE)
  apply (simp_all add: apply_control_def ascii_def)
  done












lemma udp_clients:
  "clients (fst (handle_udp_packet e s data addr)) =
     (case split_packet (byte_order e) data of
        None \<Rightarrow> clients s
      | Some (ptype, tag, payload) \<Rightarrow>
          (case utf8_decode tag of
             None \<Rightarrow> clients s
           | Some sid \<Rightarrow>
               (case map_of (clients s) sid of
                  None \<Rightarrow> clients s
                | Some c \<Rightarrow> AList.update sid (c\<lparr>udp_addr := addr\<rparr>) (clients s))))"
  by (auto simp: handle_udp_packet_def Let_def split: option.splits prod.splits)

lemma handshake_clients:
  "clients (fst (tcp_handshake e s conn (Some peer) data t_id t_seen)) =
     (case snd (snd (tcp_handshake e s conn (Some peer) data t_id t_seen)) of
        None \<Rightarrow> clients s
      | Some cid \<Rightarrow>
          AList.update cid
            \<lparr>client_id = cid, username = strip (the (utf8_decode (take 1024 (the data)))),
             tcp_writer = conn, tcp_reader = conn, udp_addr = (fst peer, udp_port s),
             video_active = False, audio_active = False, screen_sharing = False,
             last_seen = t_seen\<rparr>
            (clients s))"
  by (auto simp: tcp_handshake_def tcp_close_def Let_def split: option.splits prod.splits)

lemma handshake_none_state:
  "\<exists>x. fst (tcp_handshake e s conn None data t_id t_seen) = fst (tcp_close e s x conn)"
proof (cases data)
  case None
  then have "fst (tcp_handshake e s conn None data t_id t_seen) = fst (tcp_close e s None conn)"
    by (simp add: tcp_handshake_def split: prod.splits)
  then show ?thesis ..
next
  case (Some d)
  show ?thesis
  proof (cases "utf8_decode (take 1024 d)")
    case None
    with Some
    have "fst (tcp_handshake e s conn None data t_id t_seen) = fst (tcp_close e s None conn)"
      by (simp add: tcp_handshake_def split: prod.splits)
    then show ?thesis ..
  next
    case (Some raw)
    show ?thesis
    proof (cases "strip raw = []")
      case True
      with Some \<open>data = Some d\<close>
      have "fst (tcp_handshake e s conn None data t_id t_seen) = fst (tcp_close e s None conn)"
        by (simp add: tcp_handshake_def Let_def split: prod.splits)
      then show ?thesis ..
    next
      case False
      with Some \<open>data = Some d\<close>
      have "fst (tcp_handshake e s conn None data t_id t_seen)
          = fst (tcp_close e s (Some (strip raw @ ascii ''_'' @ str_int (py_int (t_id * 1000)))) conn)"
        by (simp add: tcp_handshake_def Let_def split: prod.splits)
      then show ?thesis ..
    qed
  qed
qed




lemma split_packet_build:
  assumes "pack_H bo (length tag) = Some l"
  shows "split_packet bo ([t] @ l @ tag @ payload) = Some (t, tag, payload)"
proof -
  from pack_H_length [OF assms] obtain b0 b1 where l: "l = [b0, b1]"
    by (cases l; cases "tl l") auto
  from unpack_pack_H [OF assms] show ?thesis unfolding l
    by (simp add: split_packet_def numeral_3_eq_3)
qed


section \<open>Properties of the client\<close>

lemma connect_failed_unchanged:
  "\<not> snd (connect bo c name opened write_ok incoming) \<Longrightarrow>
     connected_cl (fst (connect bo c name opened write_ok incoming)) = connected_cl c
     \<and> client_id_cl (fst (connect bo c name opened write_ok incoming)) = client_id_cl c
     \<and> tcp_writer_cl (fst (connect bo c name opened write_ok incoming))
         = (if opened then Some Open else tcp_writer_cl c)"
  by (auto simp: connect_def Let_def split: if_splits option.splits prod.splits list.splits)


lemma read_hello:
  "read_frame Little ([5, 0, 0, 0] @ ascii_bytes ''HELLO'') = Some (ascii_bytes ''HELLO'', [])"
  by (simp add: read_frame_def readexactly_def unpack_I_def native_def ascii_bytes_def ascii_def)

lemma read_connected_x:
  "read_frame Little ([11, 0, 0, 0] @ ascii_bytes ''CONNECTED:x'')
     = Some (ascii_bytes ''CONNECTED:x'', [])"
  by (simp add: read_frame_def readexactly_def unpack_I_def native_def ascii_bytes_def ascii_def)

lemma encode_alice: "utf8_encode (ascii ''alice'') = Some (ascii_bytes ''alice'')"
  by (simp add: encode_ascii_bytes)

lemma connect_hello:
  "connect Little new_client (ascii ''alice'') True True ([5, 0, 0, 0] @ ascii_bytes ''HELLO'')
     = (new_client\<lparr>tcp_writer_cl := Some Open, username_cl := Some (ascii ''alice'')\<rparr>, False)"
  unfolding connect_def read_hello
  by (simp add: encode_alice decode_ascii_bytes startswith_def new_client_def)
     (simp add: ascii_def)

lemma connect_connected_x:
  "connect Little new_client (ascii ''alice'') True True ([11, 0, 0, 0] @ ascii_bytes ''CONNECTED:x'')
     = (new_client\<lparr>tcp_writer_cl := Some Open, connected_cl := True,
                  client_id_cl := Some (ascii ''x''), username_cl := Some (ascii ''alice''),
                  receivers_started := True\<rparr>, True)"
  unfolding connect_def read_connected_x
  by (simp add: encode_alice decode_ascii_bytes startswith_def new_client_def)
     (simp add: ascii_def)


lemma disconnect_closes:
  "tcp_writer_cl c = Some Open \<Longrightarrow> tcp_writer_cl (disconnect c) = Some Closed"
  by (simp add: disconnect_def)

section \<open>The example runs, evaluated\<close>

lemmas evs = ascii_def ascii_bytes_def utf8_decode_def strip_def isspace_def str_int_def
  py_int_def digits.simps init_server_def quiet_def Let_def

lemma s_alice_eq:
  "s_alice =
     \<lparr>udp_port = 9001, clients = [(ascii ''alice_1000'', alice_rec)],
      username_to_id = [ascii ''alice'' \<mapsto> ascii ''alice_1000''],
      rooms_main = {ascii ''alice_1000''}, total_messages = 0, total_bytes = 0\<rparr>"
  by (simp add: s_alice_def tcp_handshake_def alice_rec_def evs)

lemma s_alice_bob_eq:
  "s_alice_bob =
     \<lparr>udp_port = 9001,
      clients = [(ascii ''alice_1000'', alice_rec), (ascii ''bob_2000'', bob_rec)],
      username_to_id = [ascii ''alice'' \<mapsto> ascii ''alice_1000'', ascii ''bob'' \<mapsto> ascii ''bob_2000''],
      rooms_main = {ascii ''bob_2000'', ascii ''alice_1000''}, total_messages = 0,
      total_bytes = 0\<rparr>"
  by (simp add: s_alice_bob_def s_alice_eq tcp_handshake_def alice_rec_def bob_rec_def evs)

lemma s_two_alices_eq:
  "s_two_alices =
     \<lparr>udp_port = 9001,
      clients = [(ascii ''alice_1000'', alice_rec), (ascii ''alice_2000'', alice2_rec)],
      username_to_id = [ascii ''alice'' \<mapsto> ascii ''alice_2000''],
      rooms_main = {ascii ''alice_2000'', ascii ''alice_1000''}, total_messages = 0,
      total_bytes = 0\<rparr>"
  by (simp add: s_two_alices_def s_alice_eq tcp_handshake_def alice_rec_def alice2_rec_def evs)

lemma inv_s_alice_bob: "session_table_ok s_alice_bob"
  by (simp add: session_table_ok_def writers_def client_ok_def s_alice_bob_eq alice_rec_def bob_rec_def
      utf8_encode_def utf8_encode1_def ascii_def)

lemma inv_s_two_alices: "session_table_ok s_two_alices"
  by (simp add: session_table_ok_def writers_def client_ok_def s_two_alices_eq alice_rec_def alice2_rec_def
      utf8_encode_def utf8_encode1_def ascii_def)







section \<open>The registration invariant\<close>

text \<open>\<open>session_table_ok\<close> holds of the initial server and is kept by every event, provided each
  handshake comes on a connection of its own (a writer not yet in the table): it holds in
  every state the server reaches.\<close>

lemma writers_update_same:
  "map_of cl k = Some v \<Longrightarrow> tcp_writer v' = tcp_writer v \<Longrightarrow>
     map (\<lambda>p. tcp_writer (snd p)) (AList.update k v' cl) = map (\<lambda>p. tcp_writer (snd p)) cl"
  by (induction cl) (auto split: if_splits)

lemma writers_update_fresh:
  "distinct (map (\<lambda>p. tcp_writer (snd p)) cl) \<Longrightarrow> tcp_writer v' \<notin> set (map (\<lambda>p. tcp_writer (snd p)) cl)
     \<Longrightarrow> distinct (map (\<lambda>p. tcp_writer (snd p)) (AList.update k v' cl))"
proof (induction cl)
  case Nil
  then show ?case by simp
next
  case (Cons p cl)
  have sub: "set (map (\<lambda>p. tcp_writer (snd p)) (AList.update k v' cl))
      \<subseteq> insert (tcp_writer v') (set (map (\<lambda>p. tcp_writer (snd p)) cl))"
    by (induction cl) auto
  from Cons show ?case using sub by (auto split: if_splits)
qed

lemma ok_update:
  "list_all client_ok cl \<Longrightarrow> client_ok (k, v) \<Longrightarrow> list_all client_ok (AList.update k v cl)"
  by (induction cl) auto

lemma ok_delete: "list_all client_ok cl \<Longrightarrow> list_all client_ok (AList.delete k cl)"
  by (simp add: AList.delete_eq list_all_iff)

lemma writers_delete:
  "distinct (map (\<lambda>p. tcp_writer (snd p)) cl) \<Longrightarrow>
     distinct (map (\<lambda>p. tcp_writer (snd p)) (AList.delete k cl))"
  by (simp add: AList.delete_eq distinct_map_filter)

lemma inv_update_same:
  assumes "session_table_ok s" and "map_of (clients s) k = Some v" and "tcp_writer v' = tcp_writer v"
    and "username v' = username v" and "client_id v' = client_id v"
  shows "session_table_ok (s\<lparr>clients := AList.update k v' (clients s)\<rparr>)"
proof -
  from assms(2) have "(k, v) \<in> set (clients s)" by (rule map_of_SomeD)
  with assms(1) have "client_ok (k, v)" by (auto simp: session_table_ok_def list_all_iff)
  with assms(3-5) have "client_ok (k, v')" by (simp add: client_ok_def)
  with assms(1) show ?thesis
    by (simp add: session_table_ok_def writers_def distinct_update ok_update
        writers_update_same [OF assms(2,3)])
qed

lemma inv_delete: "session_table_ok s \<Longrightarrow> session_table_ok (s\<lparr>clients := AList.delete k (clients s)\<rparr>)"
  by (simp add: session_table_ok_def writers_def distinct_delete ok_delete writers_delete)

lemma inv_cong: "clients s' = clients s \<Longrightarrow> session_table_ok s' = session_table_ok s"
  by (simp add: session_table_ok_def writers_def)

lemma inv_init: "session_table_ok (init_server port)"
  by (simp add: session_table_ok_def writers_def init_server_def)

lemma inv_close: "session_table_ok s \<Longrightarrow> session_table_ok (fst (tcp_close e s cid_opt w))"
proof (cases cid_opt)
  case None
  assume "session_table_ok s"
  with None show ?thesis by (simp add: tcp_close_def)
next
  case (Some cid)
  assume i: "session_table_ok s"
  show ?thesis
  proof (cases "if cid \<noteq> [] then map_of (clients s) cid else None")
    case None
    with Some i show ?thesis by (simp add: tcp_close_def)
  next
    case (Some c)
    have "clients (fst (tcp_close e s (Some cid) w)) = AList.delete cid (clients s)"
      using Some by (simp add: tcp_close_def Let_def)
    then have "session_table_ok (fst (tcp_close e s (Some cid) w)) = session_table_ok (s\<lparr>clients := AList.delete cid (clients s)\<rparr>)"
      by (simp add: session_table_ok_def writers_def)
    with inv_delete [OF i] \<open>cid_opt = Some cid\<close> show ?thesis by simp
  qed
qed

lemma inv_remove_inactive:
  "session_table_ok (s\<lparr>clients := cl\<rparr>) \<Longrightarrow> session_table_ok (s\<lparr>clients := remove_inactive l cl\<rparr>)"
proof (induction l arbitrary: cl)
  case Nil
  then show ?case by simp
next
  case (Cons a l)
  from inv_delete [OF Cons.prems, of a] Cons.prems
  have "session_table_ok (s\<lparr>clients := (if map_of cl a \<noteq> None then AList.delete a cl else cl)\<rparr>)"
    by simp
  from Cons.IH [OF this] show ?case by simp
qed

lemma inv_sweep: "session_table_ok s \<Longrightarrow> session_table_ok (fst (cleanup_inactive_clients e s now))"
proof -
  assume "session_table_ok s"
  then have "session_table_ok (s\<lparr>clients := clients s\<rparr>)" by simp
  from inv_remove_inactive [OF this] \<open>session_table_ok s\<close> show ?thesis
    by (auto simp: cleanup_inactive_clients_def Let_def)
qed

lemma inv_control: "session_table_ok s \<Longrightarrow> session_table_ok (fst (handle_control e s cid control))"
proof (cases "map_of (clients s) cid")
  case None
  assume "session_table_ok s"
  with None show ?thesis by (simp add: handle_control_def)
next
  case (Some c)
  assume "session_table_ok s"
  from inv_update_same [OF this Some, of "apply_control control c"] Some show ?thesis
    by (simp add: handle_control_def Let_def apply_control_keeps)
qed

lemma inv_process: "session_table_ok s \<Longrightarrow> session_table_ok (fst (process_tcp_message e s cid data))"
proof -
  assume i: "session_table_ok s"
  have a: "session_table_ok (s\<lparr>total_messages := n\<rparr>)" for n using i by (simp add: session_table_ok_def writers_def)
  show ?thesis
  proof (cases "utf8_decode data")
    case None
    with i show ?thesis by (simp add: process_tcp_message_def)
  next
    case (Some message)
    with i a inv_control [OF i, of e cid] show ?thesis
      by (simp add: process_tcp_message_def split: option.splits)
  qed
qed

lemma inv_frame: "session_table_ok s \<Longrightarrow> session_table_ok (fst (tcp_frame e s cid data now))"
proof (cases "map_of (clients s) cid")
  case None
  assume "session_table_ok s"
  with None show ?thesis by (simp add: tcp_frame_def)
next
  case (Some c)
  assume "session_table_ok s"
  from inv_update_same [OF this Some, of "c\<lparr>last_seen := now\<rparr>"]
  have "session_table_ok (s\<lparr>clients := AList.update cid (c\<lparr>last_seen := now\<rparr>) (clients s)\<rparr>)" by simp
  from inv_process [OF this, of e cid data] Some show ?thesis
    by (simp add: tcp_frame_def Let_def case_prod_beta)
qed

lemma inv_udp: "session_table_ok s \<Longrightarrow> session_table_ok (fst (handle_udp_packet e s data addr))"
proof -
  assume i: "session_table_ok s"
  have keep: "session_table_ok s'" if "clients s' = clients s" for s'
    using that i inv_cong by blast
  show ?thesis
  proof (cases "split_packet (byte_order e) data")
    case None
    then show ?thesis by (intro keep) (simp add: udp_clients)
  next
    case (Some t)
    obtain ptype tag payload where t: "t = (ptype, tag, payload)" by (cases t) auto
    note sp = Some [unfolded t]
    show ?thesis
    proof (cases "utf8_decode tag")
      case None
      with sp show ?thesis by (intro keep) (simp add: udp_clients)
    next
      case (Some sid)
      note dec = this
      show ?thesis
      proof (cases "map_of (clients s) sid")
        case None
        with sp dec show ?thesis by (intro keep) (simp add: udp_clients)
      next
        case (Some c)
        from inv_update_same [OF i Some, of "c\<lparr>udp_addr := addr\<rparr>"]
        have "session_table_ok (s\<lparr>clients := AList.update sid (c\<lparr>udp_addr := addr\<rparr>) (clients s)\<rparr>)" by simp
        moreover have "clients (fst (handle_udp_packet e s data addr))
            = clients (s\<lparr>clients := AList.update sid (c\<lparr>udp_addr := addr\<rparr>) (clients s)\<rparr>)"
          using sp dec Some by (simp add: udp_clients)
        ultimately show ?thesis using inv_cong by blast
      qed
    qed
  qed
qed

lemma handshake_Some:
  assumes "snd (snd (tcp_handshake e s conn (Some p) data t_id t_seen)) = Some cid"
  shows "\<exists>d raw. data = Some d \<and> utf8_decode (take 1024 d) = Some raw \<and> strip raw \<noteq> []
           \<and> cid = strip raw @ ascii ''_'' @ str_int (py_int (t_id * 1000))"
proof (cases data)
  case None
  with assms show ?thesis by (simp add: tcp_handshake_def case_prod_beta)
next
  case (Some d)
  note d = this
  show ?thesis
  proof (cases "utf8_decode (take 1024 d)")
    case None
    with assms d show ?thesis by (simp add: tcp_handshake_def case_prod_beta)
  next
    case (Some raw)
    show ?thesis
    proof (cases "strip raw = []")
      case True
      with assms d Some show ?thesis by (simp add: tcp_handshake_def Let_def case_prod_beta)
    next
      case False
      with assms d Some show ?thesis by (simp add: tcp_handshake_def Let_def)
    qed
  qed
qed

lemma inv_handshake:
  assumes "session_table_ok s" and "conn \<notin> set (writers s)"
  shows "session_table_ok (fst (tcp_handshake e s conn peer data t_id t_seen))"
proof (cases peer)
  case None
  from handshake_none_state [of e s conn data t_id t_seen] obtain x
    where "fst (tcp_handshake e s conn None data t_id t_seen) = fst (tcp_close e s x conn)" ..
  with inv_close [OF assms(1), of e x conn] None show ?thesis by simp
next
  case (Some p)
  show ?thesis
  proof (cases "snd (snd (tcp_handshake e s conn (Some p) data t_id t_seen))")
    case None
    then have "clients (fst (tcp_handshake e s conn (Some p) data t_id t_seen)) = clients s"
      by (simp add: handshake_clients)
    then have "session_table_ok (fst (tcp_handshake e s conn (Some p) data t_id t_seen)) = session_table_ok s"
      by (rule inv_cong)
    with assms(1) \<open>peer = Some p\<close> show ?thesis by simp
  next
    case (Some cid)
    from handshake_Some [OF this]
    obtain d raw where d: "data = Some d" "utf8_decode (take 1024 d) = Some raw"
      "strip raw \<noteq> []" "cid = strip raw @ ascii ''_'' @ str_int (py_int (t_id * 1000))"
      by blast
    let ?c = "\<lparr>client_id = cid, username = strip raw,
             tcp_writer = conn, tcp_reader = conn, udp_addr = (fst p, udp_port s),
             video_active = False, audio_active = False, screen_sharing = False,
             last_seen = t_seen\<rparr>"
    have cl: "clients (fst (tcp_handshake e s conn (Some p) data t_id t_seen))
        = AList.update cid ?c (clients s)"
      using Some d by (simp add: handshake_clients)
    have "utf8_encode raw \<noteq> None" using utf8_encode_decode [OF d(2)] by simp
    then have e1: "utf8_encode (strip raw) \<noteq> None" by (rule encode_strip)
    have "length raw \<le> length (take 1024 d)" by (rule decode_length [OF d(2)])
    with strip_length [of raw] have e2: "length (strip raw) \<le> 1024" by simp
    have ok: "client_ok (cid, ?c)" using e1 e2 d(3,4) by (simp add: client_ok_def)
    have dk: "distinct (map fst (AList.update cid ?c (clients s)))"
      using assms(1) by (simp add: session_table_ok_def distinct_update)
    have dw: "distinct (map (\<lambda>p. tcp_writer (snd p)) (AList.update cid ?c (clients s)))"
      by (rule writers_update_fresh) (use assms in \<open>simp_all add: session_table_ok_def writers_def\<close>)
    have ok': "list_all client_ok (AList.update cid ?c (clients s))"
      by (rule ok_update) (use assms(1) ok in \<open>simp_all add: session_table_ok_def\<close>)
    have "session_table_ok (fst (tcp_handshake e s conn (Some p) data t_id t_seen))"
      unfolding session_table_ok_def writers_def cl using dk dw ok' by simp
    with \<open>peer = Some p\<close> show ?thesis by simp
  qed
qed

lemma inv_step:
  assumes "session_table_ok s"
    and "\<And>conn peer data t_id t_seen. ev = Handshake conn peer data t_id t_seen \<Longrightarrow>
           conn \<notin> set (writers s)"
  shows "session_table_ok (step e s ev)"
  using assms
  by (cases ev) (simp_all add: step_def inv_handshake inv_frame inv_close inv_udp inv_sweep)

lemma inv_run: "session_table_ok s \<Longrightarrow> new_connections e s evs \<Longrightarrow> session_table_ok (run e s evs)"
proof (induction evs arbitrary: s)
  case Nil
  then show ?case by simp
next
  case (Cons ev evs)
  from Cons.prems(2) have n: "new_connections e (step e s ev) evs" by simp
  have "session_table_ok (step e s ev)"
  proof (rule inv_step [OF Cons.prems(1)])
    fix conn peer data t_id t_seen
    assume "ev = Handshake conn peer data t_id t_seen"
    with Cons.prems(2) show "conn \<notin> set (writers s)" by simp
  qed
  from Cons.IH [OF this n] show ?case by simp
qed

lemma inv_reachable: "new_connections e (init_server port) evs \<Longrightarrow> session_table_ok (run e (init_server port) evs)"
  by (rule inv_run [OF inv_init])

section \<open>The claims\<close>


text \<open>C1 (the code breaks it). The id is the display name, an underscore and the clock in
  whole milliseconds (line 97, under the comment "Create unique client ID"): two handshakes
  with the name \<open>alice\<close> at clock readings 1 s and 1.0004 s both get the id
  \<open>alice_1000\<close>, and the second replaces the first in the client table, which then holds
  one session (that of the second connection) after two successful handshakes.\<close>

theorem same_millisecond_same_id:
  "snd (snd (tcp_handshake quiet (init_server 9001) 1 (Some (ascii ''10.0.0.5'', 50000))
               (Some (ascii_bytes ''alice'')) 1 1)) = Some (ascii ''alice_1000'')
   \<and> snd (snd (tcp_handshake quiet s_alice 2 (Some (ascii ''10.0.0.6'', 50001))
               (Some (ascii_bytes ''alice'')) 1.0004 1.0004)) = Some (ascii ''alice_1000'')
   \<and> map fst (clients (fst (tcp_handshake quiet s_alice 2 (Some (ascii ''10.0.0.6'', 50001))
               (Some (ascii_bytes ''alice'')) 1.0004 1.0004))) = [ascii ''alice_1000'']
   \<and> writers (fst (tcp_handshake quiet s_alice 2 (Some (ascii ''10.0.0.6'', 50001))
               (Some (ascii_bytes ''alice'')) 1.0004 1.0004)) = [2]"
  by (simp add: tcp_handshake_def s_alice_eq writers_def evs)

text \<open>C2 (the code breaks it). The liveness sweep deletes a stale session from the client
  table only: with \<open>alice\<close> last seen at 1 s and \<open>bob\<close> at 2 s, the sweep at 301.5 s
  evicts \<open>alice\<close>, but her name still maps to her id and her id is still in the room;
  when her connection ends afterwards, the \<open>finally\<close> block finds no table entry and
  removes nothing (it only closes the writer), so both stay for good.\<close>

theorem sweep_leaves_name_and_room:
  "clients (fst (cleanup_inactive_clients quiet s_alice_bob 301.5)) = [(ascii ''bob_2000'', bob_rec)]
   \<and> username_to_id (fst (cleanup_inactive_clients quiet s_alice_bob 301.5)) (ascii ''alice'')
       = Some (ascii ''alice_1000'')
   \<and> ascii ''alice_1000'' \<in> rooms_main (fst (cleanup_inactive_clients quiet s_alice_bob 301.5))
   \<and> tcp_close quiet (fst (cleanup_inactive_clients quiet s_alice_bob 301.5))
        (Some (ascii ''alice_1000'')) 1
       = (fst (cleanup_inactive_clients quiet s_alice_bob 301.5), [TcpClose 1])"
  by (simp add: cleanup_inactive_clients_def tcp_close_def s_alice_bob_eq alice_rec_def bob_rec_def
      AList.delete_eq evs)




text \<open>C4. In a state the server can reach (\<open>session_table_ok\<close>), session \<open>sid\<close> of the table sends \<open>CONTROL:\<close> followed by one of the six
  commands. The server sets the named flag on the sender's own record (every other
  record is unchanged) and writes one framed \<open>STATUS:\<close> message, the JSON object of the
  sender's name and its three flags after the change, to the writer of every other table
  entry: each of them exactly once, and nothing to the sender's own writer.\<close>

theorem control_status_fanout:
  assumes "session_table_ok s"
    and "map_of (clients s) sid = Some sender"
    and "cs \<in> set [''VIDEO_ON'', ''VIDEO_OFF'', ''AUDIO_ON'', ''AUDIO_OFF'', ''SCREEN_ON'',
           ''SCREEN_OFF'']"
    and "(s', out) = process_tcp_message e s sid (ascii_bytes (''CONTROL:'' @ cs))"
    and "sender' = sender
           \<lparr>video_active := (if cs = ''VIDEO_ON'' then True
                              else if cs = ''VIDEO_OFF'' then False else video_active sender),
            audio_active := (if cs = ''AUDIO_ON'' then True
                              else if cs = ''AUDIO_OFF'' then False else audio_active sender),
            screen_sharing := (if cs = ''SCREEN_ON'' then True
                                else if cs = ''SCREEN_OFF'' then False
                                else screen_sharing sender)\<rparr>"
    and "msg = map of_nat (ascii ''STATUS:'' @ json_status sender')"
  shows "clients s' = AList.update sid sender' (clients s)
         \<and> map_of (clients s') sid = Some sender'
         \<and> (\<forall>k. k \<noteq> sid \<longrightarrow> map_of (clients s') k = map_of (clients s) k)
         \<and> (\<exists>prefix. pack_I (byte_order e) (length msg) = Some prefix
              \<and> out = map (\<lambda>p. TcpWrite (tcp_writer (snd p)) (prefix @ msg)
                                 (\<not> write_fails e (tcp_writer (snd p))))
                        (filter (\<lambda>p. fst p \<noteq> sid) (clients s)))
         \<and> length out = length (clients s) - 1
         \<and> (\<forall>buf ok. TcpWrite (tcp_writer sender) buf ok \<notin> set out)
         \<and> distinct out"
proof -
  from assms(1) have dw: "distinct (map (\<lambda>p. tcp_writer (snd p)) (clients s))"
    and ok: "list_all client_ok (clients s)"
    by (simp_all add: session_table_ok_def writers_def)
  from assms(2) have "(sid, sender) \<in> set (clients s)" by (rule map_of_SomeD)
  with ok have un: "length (username sender) \<le> 1024"
    by (auto simp: list_all_iff client_ok_def)
  have ac: "apply_control (ascii cs) sender = sender'"
    unfolding assms(5) by (rule apply_control_six [OF assms(3)])
  have un': "length (username sender') \<le> 1024" using un unfolding assms(5) by simp
  note m = status_message [OF un', folded assms(6)]
  from pack_I_Some [OF m(2)] obtain prefix
    where p: "pack_I (byte_order e) (length msg) = Some prefix" by blast
  have hc: "(s', out) =
           (s\<lparr>clients := AList.update sid sender' (clients s)\<rparr>,
            map (\<lambda>p. TcpWrite (tcp_writer (snd p)) (prefix @ msg)
                       (\<not> write_fails e (tcp_writer (snd p))))
              (filter (\<lambda>p. fst p \<noteq> sid) (clients s)))"
    unfolding assms(4) process_control [OF assms(3)]
    using handle_control_eq [OF assms(2) _ p, of "ascii cs"] m(1) ac by simp
  then have s': "clients s' = AList.update sid sender' (clients s)"
    and out: "out = map (\<lambda>p. TcpWrite (tcp_writer (snd p)) (prefix @ msg)
                       (\<not> write_fails e (tcp_writer (snd p))))
              (filter (\<lambda>p. fst p \<noteq> sid) (clients s))"
    by simp_all
  have nw: "TcpWrite (tcp_writer sender) buf ok \<notin> set out" for buf ok
  proof
    assume "TcpWrite (tcp_writer sender) buf ok \<in> set out"
    then have "\<exists>q \<in> set (filter (\<lambda>p. fst p \<noteq> sid) (clients s)).
        tcp_writer (snd q) = tcp_writer sender"
      unfolding out by (rule write_recipient)
    then obtain q where "q \<in> set (clients s)" "fst q \<noteq> sid"
      "tcp_writer (snd q) = tcp_writer sender"
      by auto
    with other_writer [OF dw assms(2)] show False by blast
  qed
  have "distinct (map (\<lambda>p. tcp_writer (snd p))
      (filter (\<lambda>p. fst p \<noteq> sid) (clients s)))"
    using dw by (rule distinct_map_filter)
  then have d: "distinct out" unfolding out by (rule distinct_writes)
  from s' have "map_of (clients s') sid = Some sender'"
    and "\<forall>k. k \<noteq> sid \<longrightarrow> map_of (clients s') k = map_of (clients s) k"
    by (simp_all add: update_conv')
  moreover from assms(1) have "distinct (map fst (clients s))" by (simp add: session_table_ok_def)
  then have "length out = length (clients s) - 1"
    unfolding out using others_count [OF _ assms(2)] by simp
  ultimately show ?thesis using s' p out nw d by blast
qed

theorem control_status_witness:
  "session_table_ok s_alice_bob
   \<and> map_of (clients s_alice_bob) (ascii ''alice_1000'') = Some alice_rec
   \<and> clients (fst (process_tcp_message quiet s_alice_bob (ascii ''alice_1000'')
                     (ascii_bytes (''CONTROL:'' @ ''VIDEO_ON''))))
       = [(ascii ''alice_1000'', alice_rec\<lparr>video_active := True\<rparr>), (ascii ''bob_2000'', bob_rec)]
   \<and> snd (process_tcp_message quiet s_alice_bob (ascii ''alice_1000'')
             (ascii_bytes (''CONTROL:'' @ ''VIDEO_ON'')))
       = [TcpWrite 2 ([76, 0, 0, 0] @ ascii_bytes ''STATUS:{'' @ quoted ''username''
            @ ascii_bytes '': '' @ quoted ''alice'' @ ascii_bytes '', '' @ quoted ''video''
            @ ascii_bytes '': true, '' @ quoted ''audio'' @ ascii_bytes '': false, ''
            @ quoted ''screen'' @ ascii_bytes '': false}'') True]"
proof -
  let ?r = "process_tcp_message quiet s_alice_bob (ascii ''alice_1000'')
              (ascii_bytes (''CONTROL:'' @ ''VIDEO_ON''))"
  let ?a = "alice_rec\<lparr>video_active := True\<rparr>"
  let ?msg = "map of_nat (ascii ''STATUS:'' @ json_status ?a) :: bytes"
  have h: "map_of (clients s_alice_bob) (ascii ''alice_1000'') = Some alice_rec"
    by (simp add: s_alice_bob_eq)
  have m: "''VIDEO_ON'' \<in> set [''VIDEO_ON'', ''VIDEO_OFF'', ''AUDIO_ON'', ''AUDIO_OFF'',
      ''SCREEN_ON'', ''SCREEN_OFF'']" by simp
  have p: "(fst ?r, snd ?r) = ?r" by simp
  have a: "?a = alice_rec
           \<lparr>video_active := (if ''VIDEO_ON'' = ''VIDEO_ON'' then True
                              else if ''VIDEO_ON'' = ''VIDEO_OFF'' then False
                              else video_active alice_rec),
            audio_active := (if ''VIDEO_ON'' = ''AUDIO_ON'' then True
                              else if ''VIDEO_ON'' = ''AUDIO_OFF'' then False
                              else audio_active alice_rec),
            screen_sharing := (if ''VIDEO_ON'' = ''SCREEN_ON'' then True
                                else if ''VIDEO_ON'' = ''SCREEN_OFF'' then False
                                else screen_sharing alice_rec)\<rparr>"
    by simp
  note r = control_status_fanout [OF inv_s_alice_bob h m p a refl]
  from r have c: "clients (fst ?r) = AList.update (ascii ''alice_1000'') ?a (clients s_alice_bob)"
    by blast
  from r obtain prefix where pre: "pack_I (byte_order quiet) (length ?msg) = Some prefix"
    and out: "snd ?r = map (\<lambda>p. TcpWrite (tcp_writer (snd p)) (prefix @ ?msg)
                                 (\<not> write_fails quiet (tcp_writer (snd p))))
                        (filter (\<lambda>p. fst p \<noteq> ascii ''alice_1000'') (clients s_alice_bob))"
    by blast
  have msg: "?msg = ascii_bytes ''STATUS:{'' @ quoted ''username''
            @ ascii_bytes '': '' @ quoted ''alice'' @ ascii_bytes '', '' @ quoted ''video''
            @ ascii_bytes '': true, '' @ quoted ''audio'' @ ascii_bytes '': false, ''
            @ quoted ''screen'' @ ascii_bytes '': false}''"
    by (simp add: alice_rec_def json_status_def json_key_def json_str_def json_escape_char_def
        json_bool_def quoted_def ascii_bytes_def ascii_def)
  have len: "length ?msg = 76" unfolding msg by (simp add: quoted_def ascii_bytes_def ascii_def)
  from pre have prefix: "prefix = [76, 0, 0, 0]"
    unfolding len by (simp add: pack_I_def native_def quiet_def)
  have c': "clients (fst ?r) = [(ascii ''alice_1000'', ?a), (ascii ''bob_2000'', bob_rec)]"
    unfolding c by (simp add: s_alice_bob_eq)
  have out': "snd ?r = [TcpWrite 2 ([76, 0, 0, 0] @ ?msg) True]"
    unfolding out prefix by (simp add: s_alice_bob_eq quiet_def bob_rec_def ascii_def)
  from inv_s_alice_bob h c' out' [unfolded msg] show ?thesis by simp
qed







text \<open>C6. A datagram of fewer than 3 bytes, or whose declared tag length (read in the
  receiving host's byte order) exceeds the bytes after the 3-byte header, is dropped by
  the server (the state is unchanged and nothing is sent, so nothing is forwarded and
  there is no reply) and by the client's receiver (nothing is handed to a callback).\<close>

theorem malformed_datagram_dropped:
  assumes "length data < 3
           \<or> (\<exists>n. unpack_H bo (take 2 (drop 1 data)) = Some n \<and> length data - 3 < n)"
    and "byte_order e = bo"
  shows "handle_udp_packet e s data addr = (s, [])
         \<and> receive_udp bo imdecode on_video_frame on_audio_chunk on_screen_frame data = []"
proof -
  from assms(1) have "split_packet bo data = None"
    by (auto simp: split_packet_def)
  with assms(2) show ?thesis by (simp add: handle_udp_packet_def receive_udp_def)
qed

theorem malformed_datagram_witness:
  "length ([1, 5] :: bytes) < 3
   \<and> byte_order quiet = Little
   \<and> handle_udp_packet quiet s_alice_bob [1, 5] (ascii ''10.0.0.5'', 40000) = (s_alice_bob, [])
   \<and> receive_udp Little Some True True True [1, 5] = []
   \<and> unpack_H Little (take 2 (drop 1 [2, 5, 0, 97, 98])) = Some 5
   \<and> length ([2, 5, 0, 97, 98] :: bytes) - 3 < 5
   \<and> handle_udp_packet quiet s_alice_bob [2, 5, 0, 97, 98] (ascii ''10.0.0.5'', 40000)
       = (s_alice_bob, [])
   \<and> receive_udp Little Some True True True [2, 5, 0, 97, 98] = []"
proof -
  have a: "length ([1, 5] :: bytes) < 3
           \<or> (\<exists>n. unpack_H Little (take 2 (drop 1 [1, 5])) = Some n \<and> length ([1, 5] :: bytes) - 3 < n)"
    by simp
  have u: "unpack_H Little (take 2 (drop 1 [2, 5, 0, 97, 98])) = Some 5"
    by (simp add: unpack_H_def native_def)
  then have b: "length ([2, 5, 0, 97, 98] :: bytes) < 3
           \<or> (\<exists>n. unpack_H Little (take 2 (drop 1 [2, 5, 0, 97, 98])) = Some n
                 \<and> length ([2, 5, 0, 97, 98] :: bytes) - 3 < n)"
    by simp
  have q: "byte_order quiet = Little" by (simp add: quiet_def)
  from malformed_datagram_dropped [OF a q, of s_alice_bob "(ascii ''10.0.0.5'', 40000)" Some True True True]
    malformed_datagram_dropped [OF b q, of s_alice_bob "(ascii ''10.0.0.5'', 40000)" Some True True True]
    u q
  show ?thesis by simp
qed





text \<open>C8, as amended. When the connection cannot be opened, when the reply frame does not
  arrive whole before the reads time out, when it is not UTF-8 or does not start with
  \<open>CONNECTED:\<close>, \<open>connect\<close> returns \<open>False\<close>; and whenever it returns \<open>False\<close> the
  connected flag and the session id are what they were before the call (false and none on
  a new client), while the socket, once opened, is left open: \<open>connect\<close> never closes
  it.\<close>

theorem connect_failure:
  assumes "r = connect bo c name opened write_ok incoming"
  shows "((\<not> opened \<or> read_frame bo incoming = None
           \<or> (\<exists>data rest. read_frame bo incoming = Some (data, rest)
                 \<and> (utf8_decode data = None
                      \<or> (\<exists>response. utf8_decode data = Some response
                            \<and> \<not> startswith response (ascii ''CONNECTED:'')))))
          \<longrightarrow> \<not> snd r)
         \<and> (\<not> snd r \<longrightarrow> connected_cl (fst r) = connected_cl c \<and> client_id_cl (fst r) = client_id_cl c
                \<and> tcp_writer_cl (fst r) = (if opened then Some Open else tcp_writer_cl c))"
proof (intro conjI impI)
  assume "\<not> opened \<or> read_frame bo incoming = None
           \<or> (\<exists>data rest. read_frame bo incoming = Some (data, rest)
                 \<and> (utf8_decode data = None
                      \<or> (\<exists>response. utf8_decode data = Some response
                            \<and> \<not> startswith response (ascii ''CONNECTED:''))))"
  then show "\<not> snd r" unfolding assms
    by (auto simp: connect_def Let_def)
next
  assume "\<not> snd r"
  then show "connected_cl (fst r) = connected_cl c" "client_id_cl (fst r) = client_id_cl c"
    "tcp_writer_cl (fst r) = (if opened then Some Open else tcp_writer_cl c)"
    unfolding assms using connect_failed_unchanged by blast+
qed


theorem connect_failure_witness:
  "read_frame Little ([5, 0, 0, 0] @ ascii_bytes ''HELLO'') = Some (ascii_bytes ''HELLO'', [])
   \<and> utf8_decode (ascii_bytes ''HELLO'') = Some (ascii ''HELLO'')
   \<and> \<not> startswith (ascii ''HELLO'') (ascii ''CONNECTED:'')
   \<and> \<not> snd (connect Little new_client (ascii ''alice'') True True
               ([5, 0, 0, 0] @ ascii_bytes ''HELLO''))
   \<and> \<not> connected_cl (fst (connect Little new_client (ascii ''alice'') True True
                          ([5, 0, 0, 0] @ ascii_bytes ''HELLO'')))
   \<and> client_id_cl (fst (connect Little new_client (ascii ''alice'') True True
                          ([5, 0, 0, 0] @ ascii_bytes ''HELLO''))) = None
   \<and> tcp_writer_cl (fst (connect Little new_client (ascii ''alice'') True True
                          ([5, 0, 0, 0] @ ascii_bytes ''HELLO''))) = Some Open"
proof -
  have d: "utf8_decode (ascii_bytes ''HELLO'') = Some (ascii ''HELLO'')"
    by (simp add: decode_ascii_bytes)
  have n: "\<not> startswith (ascii ''HELLO'') (ascii ''CONNECTED:'')"
    by (simp add: startswith_def ascii_def)
  from connect_failure [where bo = Little and c = new_client and name = "ascii ''alice''"
      and opened = True and write_ok = True
      and incoming = "[5, 0, 0, 0] @ ascii_bytes ''HELLO''", OF refl] read_hello d n
  show ?thesis by (auto simp: new_client_def)
qed


text \<open>C8 as stated fails twice. After the reply \<open>HELLO\<close> the call returns \<open>False\<close> with
  the socket still open; and the reply \<open>CONNECTED:x\<close>, which is not of the form
  \<open>CONNECTED:<id>:<name>\<close>, is accepted: the call returns \<open>True\<close> with the session id
  \<open>x\<close>.\<close>

theorem connect_leaves_socket_open:
  "connect Little new_client (ascii ''alice'') True True ([5, 0, 0, 0] @ ascii_bytes ''HELLO'')
     = (new_client\<lparr>tcp_writer_cl := Some Open, username_cl := Some (ascii ''alice'')\<rparr>, False)
   \<and> connect Little new_client (ascii ''alice'') True True
        ([11, 0, 0, 0] @ ascii_bytes ''CONNECTED:x'')
     = (new_client\<lparr>tcp_writer_cl := Some Open, connected_cl := True,
                  client_id_cl := Some (ascii ''x''), username_cl := Some (ascii ''alice''),
                  receivers_started := True\<rparr>, True)"
  using connect_hello connect_connected_x by simp





text \<open>C10. Two live sessions \<open>a\<close> and \<open>b\<close> share a display name, and the name index
  points to \<open>b\<close> (the later registration wins). When the connection of \<open>a\<close> ends, the
  \<open>finally\<close> block deletes the entry of the name although it names \<open>b\<close>: afterwards
  \<open>b\<close> is still in the client table and in the room, and the name index has no entry
  for the name.\<close>

theorem close_drops_namesake_from_name_index:
  assumes "map_of (clients s) a = Some ca" and "map_of (clients s) b = Some cb"
    and "a \<noteq> b" and "a \<noteq> []"
    and "username ca = username cb"
    and "username_to_id s (username cb) = Some b"
    and "b \<in> rooms_main s"
    and "s' = fst (tcp_close e s (Some a) w)"
  shows "username_to_id s' (username cb) = None \<and> map_of (clients s') b = Some cb
           \<and> b \<in> rooms_main s' \<and> map_of (clients s') a = None \<and> a \<notin> rooms_main s'"
  using assms by (simp add: tcp_close_state delete_conv')

theorem close_drops_namesake_witness:
  "map_of (clients s_two_alices) (ascii ''alice_1000'') = Some alice_rec
   \<and> map_of (clients s_two_alices) (ascii ''alice_2000'') = Some alice2_rec
   \<and> username alice_rec = username alice2_rec
   \<and> username_to_id s_two_alices (ascii ''alice'') = Some (ascii ''alice_2000'')
   \<and> ascii ''alice_2000'' \<in> rooms_main s_two_alices
   \<and> username_to_id (fst (tcp_close quiet s_two_alices (Some (ascii ''alice_1000'')) 1))
        (ascii ''alice'') = None
   \<and> map_of (clients (fst (tcp_close quiet s_two_alices (Some (ascii ''alice_1000'')) 1)))
        (ascii ''alice_2000'') = Some alice2_rec
   \<and> ascii ''alice_2000'' \<in> rooms_main (fst (tcp_close quiet s_two_alices (Some (ascii ''alice_1000'')) 1))"
proof -
  have h: "map_of (clients s_two_alices) (ascii ''alice_1000'') = Some alice_rec"
    "map_of (clients s_two_alices) (ascii ''alice_2000'') = Some alice2_rec"
    "ascii ''alice_1000'' \<noteq> ascii ''alice_2000''" "ascii ''alice_1000'' \<noteq> []"
    "username alice_rec = username alice2_rec"
    "username_to_id s_two_alices (username alice2_rec) = Some (ascii ''alice_2000'')"
    "ascii ''alice_2000'' \<in> rooms_main s_two_alices"
    by (simp_all add: s_two_alices_eq alice_rec_def alice2_rec_def ascii_def)
  from close_drops_namesake_from_name_index [OF h refl, of quiet 1] h
  show ?thesis by (simp add: alice2_rec_def)
qed

end
